theory Spec2Isabelle
  imports Complex_Main "HOL-Library.Product_Order"
begin

section \<open>Half-edge mesh kernels of \<^verbatim>\<open>triangle_mesh_utils.c\<close>\<close>

text \<open>
  The C file holds two batch kernels over a triangle mesh in half-edge form,
  \<^verbatim>\<open>update_vertex_neighbors\<close> and \<^verbatim>\<open>update_face_normals\<close>, and the two
  vector helpers \<^verbatim>\<open>norm\<close> and \<^verbatim>\<open>cross\<close>.

  Conventions of the embedding:
  \<^item> the three numpy arrays are lists of records; an index is an \<open>int\<close> and \<open>-1\<close> is
    the sentinel, as in the C code;
  \<^item> every dereference of \<^verbatim>\<open>PyArray_GETPTR1(arr, idx)\<close> is a checked read
    (\<open>deref\<close>): an index outside the array is the error \<open>OutOfBounds\<close>. Computing
    the pointer without reading through it is not a dereference;
  \<^item> the counter \<^verbatim>\<open>i\<close> is a C \<^verbatim>\<open>signed int\<close>: incrementing it at \<open>INT_MAX\<close> is the
    error \<open>IntOverflow\<close>. Every iteration of the two \<^verbatim>\<open>while (1)\<close> loops either
    leaves the loop or increments \<^verbatim>\<open>i\<close>, which is why both loops are total functions;
  \<^item> \<^verbatim>\<open>float\<close> arithmetic is idealised as exact arithmetic on \<open>real\<close>: the rounding, the
    underflow and the overflow of the 32-bit operations are not modelled. The statements
    below say which expression of \<^verbatim>\<open>norm\<close>, \<^verbatim>\<open>cross\<close> and the arithmetic operators is
    stored where; none of them says that a stored vector has length 1;
  \<^item> the header \<^verbatim>\<open>triangle_mesh_utils.h\<close> is not part of the sources at hand. The
    struct fields are the ones the C code reads and writes, \<^verbatim>\<open>VECTORSIZE\<close> is 3 (the
    code of \<^verbatim>\<open>cross\<close> fixes it), and \<^verbatim>\<open>NEIGHBORSIZE\<close> is the parameter \<open>N\<close> of every
    function that uses it.
\<close>

subsection \<open>Data model\<close>

type_synonym vec3 = "real \<times> real \<times> real"

record halfedge_t =
  he_vertex :: int
  he_face :: int
  he_twin :: int
  he_next :: int
  he_prev :: int
  he_length :: real

record face_t =
  f_halfedge :: int
  f_normal :: vec3
  f_area :: real

record vertex_t =
  v_position :: vec3
  v_normal :: vec3
  v_halfedge :: int
  v_valence :: int
  v_neighbors :: "int list"

record mesh =
  halfedges :: "halfedge_t list"
  vertices :: "vertex_t list"
  faces :: "face_t list"

datatype error = OutOfBounds | IntOverflow

definition INT_MAX :: int where
  "INT_MAX = 2147483647"

text \<open>Reading through \<^verbatim>\<open>PyArray_GETPTR1(arr, idx)\<close>.\<close>

definition deref :: "'a list \<Rightarrow> int \<Rightarrow> error + 'a" where
  "deref xs idx = (if 0 \<le> idx \<and> idx < int (length xs) then Inr (xs ! nat idx) else Inl OutOfBounds)"

subsection \<open>Vector kernel\<close>

text \<open>
  \<^verbatim>\<open>norm\<close>, lines 31 to 38: the accumulator starts at 0 and takes the three squares in
  turn. The \<^verbatim>\<open>float\<close> sum, product and \<^verbatim>\<open>sqrt\<close> are read as the exact operations on
  \<open>real\<close>, so what \<open>norm3\<close> returns never underflows, overflows or is rounded; the same
  holds for the quotients of \<open>normalized\<close> below.
\<close>

definition norm3 :: "vec3 \<Rightarrow> real" where
  "norm3 pos = (case pos of (p0, p1, p2) \<Rightarrow> sqrt (0 + p0 * p0 + p1 * p1 + p2 * p2))"

definition cross :: "vec3 \<Rightarrow> vec3 \<Rightarrow> vec3" where
  "cross a b = (case a of (a0, a1, a2) \<Rightarrow> case b of (b0, b1, b2) \<Rightarrow>
     (a1 * b2 - a2 * b1, a2 * b0 - a0 * b2, a0 * b1 - a1 * b0))"

text \<open>The loops over \<^verbatim>\<open>k < VECTORSIZE\<close>, one definition for each loop body.\<close>

definition vsub :: "vec3 \<Rightarrow> vec3 \<Rightarrow> vec3" where
  "vsub a b = (case a of (a0, a1, a2) \<Rightarrow> case b of (b0, b1, b2) \<Rightarrow> (a0 - b0, a1 - b1, a2 - b2))"

text \<open>\<^verbatim>\<open>normal[k] += ((curr_face->normal)[k])*a\<close>\<close>

definition add_scaled :: "vec3 \<Rightarrow> vec3 \<Rightarrow> real \<Rightarrow> vec3" where
  "add_scaled normal fn a = (case normal of (n0, n1, n2) \<Rightarrow> case fn of (f0, f1, f2) \<Rightarrow>
     (n0 + f0 * a, n1 + f1 * a, n2 + f2 * a))"

text \<open>
  The closing block of both kernels:
  \<^verbatim>\<open>nn = norm(n); if (nn > 0) out[k] = n[k]/nn; else out[k] = 0;\<close>
\<close>

definition normalized :: "vec3 \<Rightarrow> vec3" where
  "normalized n = (let nn = norm3 n in
     if nn > 0 then (case n of (n0, n1, n2) \<Rightarrow> (n0 / nn, n1 / nn, n2 / nn)) else (0, 0, 0))"

subsection \<open>Writes into the arrays\<close>

text \<open>\<^verbatim>\<open>edge->length = l\<close> for the half-edge at \<open>idx\<close>.\<close>

definition set_length :: "int \<Rightarrow> real \<Rightarrow> mesh \<Rightarrow> error + mesh" where
  "set_length idx l m =
     (case deref (halfedges m) idx of
        Inl e \<Rightarrow> Inl e
      | Inr he \<Rightarrow> Inr (m\<lparr>halfedges := (halfedges m)[nat idx := he\<lparr>he_length := l\<rparr>]\<rparr>))"

text \<open>Replacing the \<^verbatim>\<open>neighbors\<close> array of the vertex at \<open>v_idx\<close> (known to be in range).\<close>

definition set_neighbors :: "int \<Rightarrow> int list \<Rightarrow> mesh \<Rightarrow> mesh" where
  "set_neighbors v_idx nb m =
     m\<lparr>vertices := (vertices m)[nat v_idx := ((vertices m) ! nat v_idx)\<lparr>v_neighbors := nb\<rparr>]\<rparr>"

subsection \<open>\<^verbatim>\<open>update_face_normals\<close>\<close>

text \<open>The body of the loop over \<^verbatim>\<open>f_idxs\<close> (lines 299 to 339), for one index.\<close>

definition face_step :: "int \<Rightarrow> mesh \<Rightarrow> error + mesh" where
  "face_step f_idx m =
     (if f_idx = -1 then Inr m
      else case deref (faces m) f_idx of Inl e \<Rightarrow> Inl e | Inr curr_face \<Rightarrow>
        let curr_idx = f_halfedge curr_face in
        if curr_idx = -1 then Inr m
        else case deref (halfedges m) curr_idx of Inl e \<Rightarrow> Inl e | Inr curr_edge \<Rightarrow>
          let prev_idx = he_prev curr_edge in
          if prev_idx = -1 then Inr m
          else
            let next_idx = he_next curr_edge in
            if next_idx = -1 then Inr m
            else case deref (halfedges m) prev_idx of Inl e \<Rightarrow> Inl e | Inr prev_edge \<Rightarrow>
              case deref (halfedges m) next_idx of Inl e \<Rightarrow> Inl e | Inr next_edge \<Rightarrow>
              case deref (vertices m) (he_vertex curr_edge) of Inl e \<Rightarrow> Inl e | Inr curr_vertex \<Rightarrow>
              case deref (vertices m) (he_vertex prev_edge) of Inl e \<Rightarrow> Inl e | Inr prev_vertex \<Rightarrow>
              case deref (vertices m) (he_vertex next_edge) of Inl e \<Rightarrow> Inl e | Inr next_vertex \<Rightarrow>
                let v1 = v_position curr_vertex;
                    u = vsub (v_position prev_vertex) v1;
                    v = vsub (v_position next_vertex) v1;
                    n = cross u v;
                    nn = norm3 n
                in Inr (m\<lparr>faces := (faces m)[nat f_idx :=
                     curr_face\<lparr>f_area := 0.5 * nn, f_normal := normalized n\<rparr>]\<rparr>))"

fun update_face_normals :: "int list \<Rightarrow> mesh \<Rightarrow> error + mesh" where
  "update_face_normals [] m = Inr m"
| "update_face_normals (f_idx # f_idxs) m =
     (case face_step f_idx m of
        Inl e \<Rightarrow> Inl e
      | Inr m' \<Rightarrow> update_face_normals f_idxs m')"

subsection \<open>\<^verbatim>\<open>update_vertex_neighbors\<close>\<close>

text \<open>
  The local variables that live across the two sweeps. \<^verbatim>\<open>curr_edge\<close> and
  \<^verbatim>\<open>twin_edge\<close> are always \<^verbatim>\<open>&halfedges[curr_idx]\<close> and \<^verbatim>\<open>&halfedges[twin_idx]\<close> where
  the code reads through them, so the indices stand for the pointers.
\<close>

record sweep =
  sw_mesh :: mesh
  curr_idx :: int
  twin_idx :: int
  sw_i :: int
  sw_normal :: vec3

text \<open>
  Lines 146 to 153 and 209 to 216: record the half-edge in slot \<^verbatim>\<open>i\<close> and add its
  face's area-weighted normal, both only while \<^verbatim>\<open>i < NEIGHBORSIZE\<close>.
\<close>

definition accumulate :: "nat \<Rightarrow> int \<Rightarrow> int \<Rightarrow> int \<Rightarrow> mesh \<Rightarrow> vec3 \<Rightarrow> error + (mesh \<times> vec3)" where
  "accumulate N v_idx cur i m normal =
     (if i < int N then
        case deref (vertices m) v_idx of Inl e \<Rightarrow> Inl e | Inr curr_vertex \<Rightarrow>
        let m1 = set_neighbors v_idx ((v_neighbors curr_vertex)[nat i := cur]) m in
        case deref (halfedges m1) cur of Inl e \<Rightarrow> Inl e | Inr curr_edge \<Rightarrow>
        case deref (faces m1) (he_face curr_edge) of Inl e \<Rightarrow> Inl e | Inr curr_face \<Rightarrow>
          Inr (m1, add_scaled normal (f_normal curr_face) (f_area curr_face))
      else Inr (m, normal))"

text \<open>Lines 155 to 160 and 218 to 223: the length of the current edge.\<close>

definition edge_length :: "int \<Rightarrow> int \<Rightarrow> mesh \<Rightarrow> error + real" where
  "edge_length v_idx cur m =
     (case deref (halfedges m) cur of Inl e \<Rightarrow> Inl e | Inr curr_edge \<Rightarrow>
      case deref (vertices m) (he_vertex curr_edge) of Inl e \<Rightarrow> Inl e | Inr loop_vertex \<Rightarrow>
      case deref (vertices m) v_idx of Inl e \<Rightarrow> Inl e | Inr curr_vertex \<Rightarrow>
        Inr (norm3 (vsub (v_position curr_vertex) (v_position loop_vertex))))"

text \<open>
  Lines 146 to 161 and 209 to 224, the work both loops do on the current edge:
  record and accumulate, compute the length and store it in \<^verbatim>\<open>curr_edge->length\<close>.
  The result is the mesh, the running normal and the length \<^verbatim>\<open>l\<close>.
\<close>

definition visit :: "nat \<Rightarrow> int \<Rightarrow> int \<Rightarrow> int \<Rightarrow> mesh \<Rightarrow> vec3 \<Rightarrow> error + (mesh \<times> vec3 \<times> real)" where
  "visit N v_idx cur i m normal =
     (case accumulate N v_idx cur i m normal of Inl e \<Rightarrow> Inl e | Inr (m1, normal') \<Rightarrow>
      case edge_length v_idx cur m1 of Inl e \<Rightarrow> Inl e | Inr l \<Rightarrow>
      case set_length cur l m1 of Inl e \<Rightarrow> Inl e | Inr m2 \<Rightarrow> Inr (m2, normal', l))"

text \<open>The first \<^verbatim>\<open>while (1)\<close>, lines 141 to 175.\<close>

function forward_sweep :: "nat \<Rightarrow> int \<Rightarrow> int \<Rightarrow> sweep \<Rightarrow> error + sweep" where
  "forward_sweep N v_idx orig_idx st =
     (if curr_idx st = -1 then Inr st
      else case visit N v_idx (curr_idx st) (sw_i st) (sw_mesh st) (sw_normal st) of
        Inl e \<Rightarrow> Inl e
      | Inr (m2, normal, l) \<Rightarrow>
        if twin_idx st = -1 then Inr (st\<lparr>sw_mesh := m2, sw_normal := normal\<rparr>)
        else case set_length (twin_idx st) l m2 of Inl e \<Rightarrow> Inl e | Inr m3 \<Rightarrow>
          (case deref (halfedges m3) (twin_idx st) of Inl e \<Rightarrow> Inl e | Inr twin_edge \<Rightarrow>
           let c = he_next twin_edge in
           (case deref (halfedges m3) c of Inl e \<Rightarrow> Inl e | Inr curr_edge \<Rightarrow>
            if INT_MAX \<le> sw_i st then Inl IntOverflow
            else
              let st' = \<lparr>sw_mesh = m3, curr_idx = c, twin_idx = he_twin curr_edge,
                         sw_i = sw_i st + 1, sw_normal = normal\<rparr>
              in if c = orig_idx then Inr st' else forward_sweep N v_idx orig_idx st')))"
  by pat_completeness auto
termination
  by (relation "measure (\<lambda>(N, v_idx, orig_idx, st). nat (INT_MAX - sw_i st))") auto

text \<open>
  The \<^verbatim>\<open>for (k=i;k>1;k--)\<close> loop of lines 184 to 189 on the \<^verbatim>\<open>neighbors\<close> array,
  which has \<^verbatim>\<open>NEIGHBORSIZE\<close> slots: a slot index beyond them is out of bounds.
\<close>

function swap_down :: "nat \<Rightarrow> int \<Rightarrow> int list \<Rightarrow> error + int list" where
  "swap_down N k nb =
     (if k > 1 then
        (if k < int N then
           let tmp = nb ! nat k in
           swap_down N (k - 1) (nb[nat k := nb ! nat (k - 1), nat (k - 1) := tmp])
         else Inl OutOfBounds)
      else Inr nb)"
  by pat_completeness auto
termination
  by (relation "measure (\<lambda>(N, k, nb). nat k)") auto

text \<open>The second \<^verbatim>\<open>while (1)\<close>, lines 204 to 240.\<close>

function reverse_sweep :: "nat \<Rightarrow> int \<Rightarrow> int \<Rightarrow> sweep \<Rightarrow> error + sweep" where
  "reverse_sweep N v_idx orig_idx st =
     (if curr_idx st = -1 then Inr st
      else case visit N v_idx (curr_idx st) (sw_i st) (sw_mesh st) (sw_normal st) of
        Inl e \<Rightarrow> Inl e
      | Inr (m2, normal, l) \<Rightarrow>
        (case set_length (twin_idx st) l m2 of Inl e \<Rightarrow> Inl e | Inr m3 \<Rightarrow>
         (case deref (halfedges m3) (curr_idx st) of Inl e \<Rightarrow> Inl e | Inr curr_edge \<Rightarrow>
          let t = he_prev curr_edge in
          if t = -1 then Inr (st\<lparr>sw_mesh := m3, twin_idx := t, sw_normal := normal\<rparr>)
          else (case deref (halfedges m3) t of Inl e \<Rightarrow> Inl e | Inr twin_edge \<Rightarrow>
            let c = he_twin twin_edge in
            if c = -1 \<or> c = orig_idx
            then Inr (st\<lparr>sw_mesh := m3, curr_idx := c, twin_idx := t, sw_normal := normal\<rparr>)
            else if INT_MAX \<le> sw_i st then Inl IntOverflow
            else reverse_sweep N v_idx orig_idx
                   \<lparr>sw_mesh = m3, curr_idx = c, twin_idx = t, sw_i = sw_i st + 1,
                    sw_normal = normal\<rparr>))))"
  by pat_completeness auto
termination
  by (relation "measure (\<lambda>(N, v_idx, orig_idx, st). nat (INT_MAX - sw_i st))") auto

text \<open>
  What the ring walk of one vertex comes to: \<open>Skipped\<close> is a \<^verbatim>\<open>continue\<close> taken
  after the arrays were touched (lines 195 and 199), \<open>Swept\<close> reaches line 243.
\<close>

datatype walk = Skipped mesh | Swept sweep

text \<open>The boundary fallback, lines 180 to 241.\<close>

definition boundary_fallback :: "nat \<Rightarrow> int \<Rightarrow> int \<Rightarrow> sweep \<Rightarrow> error + walk" where
  "boundary_fallback N v_idx orig_idx st =
     (case deref (vertices (sw_mesh st)) v_idx of Inl e \<Rightarrow> Inl e | Inr curr_vertex \<Rightarrow>
      case swap_down N (sw_i st) (v_neighbors curr_vertex) of Inl e \<Rightarrow> Inl e | Inr nb \<Rightarrow>
        let m1 = set_neighbors v_idx nb (sw_mesh st) in
        case deref (halfedges m1) orig_idx of Inl e \<Rightarrow> Inl e | Inr curr_edge \<Rightarrow>
        let t = he_prev curr_edge in
        if t = -1 then Inr (Skipped m1)
        else case deref (halfedges m1) t of Inl e \<Rightarrow> Inl e | Inr twin_edge \<Rightarrow>
          let c = he_twin twin_edge in
          if c = -1 then Inr (Skipped m1)
          else if INT_MAX \<le> sw_i st then Inl IntOverflow
          else case reverse_sweep N v_idx orig_idx
                 \<lparr>sw_mesh = m1, curr_idx = c, twin_idx = t, sw_i = sw_i st + 1,
                  sw_normal = sw_normal st\<rparr> of
            Inl e \<Rightarrow> Inl e | Inr st' \<Rightarrow> Inr (Swept st'))"

text \<open>Lines 123 to 241 for a vertex index that is not the sentinel.\<close>

definition ring_walk :: "nat \<Rightarrow> int \<Rightarrow> mesh \<Rightarrow> error + walk" where
  "ring_walk N v_idx m =
     (case deref (vertices m) v_idx of Inl e \<Rightarrow> Inl e | Inr curr_vertex \<Rightarrow>
      let orig_idx = v_halfedge curr_vertex in
      if orig_idx = -1 then Inr (Skipped m)
      else case deref (halfedges m) orig_idx of Inl e \<Rightarrow> Inl e | Inr curr_edge \<Rightarrow>
        let m0 = set_neighbors v_idx (replicate N (-1)) m in
        case forward_sweep N v_idx orig_idx
               \<lparr>sw_mesh = m0, curr_idx = orig_idx, twin_idx = he_twin curr_edge, sw_i = 0,
                sw_normal = (0, 0, 0)\<rparr> of
          Inl e \<Rightarrow> Inl e
        | Inr st \<Rightarrow>
            if twin_idx st = -1 \<and> curr_idx st \<noteq> -1
            then boundary_fallback N v_idx orig_idx st
            else Inr (Swept st))"

text \<open>Lines 243 to 252: the valence and the normalised normal are stored.\<close>

definition finish :: "int \<Rightarrow> sweep \<Rightarrow> mesh" where
  "finish v_idx st =
     (let m = sw_mesh st in
      m\<lparr>vertices := (vertices m)[nat v_idx :=
           ((vertices m) ! nat v_idx)\<lparr>v_valence := sw_i st, v_normal := normalized (sw_normal st)\<rparr>]\<rparr>)"

text \<open>The body of the loop over \<^verbatim>\<open>v_idxs\<close> (lines 118 to 252), for one index.\<close>

definition vertex_step :: "nat \<Rightarrow> int \<Rightarrow> mesh \<Rightarrow> error + mesh" where
  "vertex_step N v_idx m =
     (if v_idx = -1 then Inr m
      else case ring_walk N v_idx m of
        Inl e \<Rightarrow> Inl e
      | Inr (Skipped m') \<Rightarrow> Inr m'
      | Inr (Swept st) \<Rightarrow> Inr (finish v_idx st))"

fun update_vertex_neighbors :: "nat \<Rightarrow> int list \<Rightarrow> mesh \<Rightarrow> error + mesh" where
  "update_vertex_neighbors N [] m = Inr m"
| "update_vertex_neighbors N (v_idx # v_idxs) m =
     (case vertex_step N v_idx m of
        Inl e \<Rightarrow> Inl e
      | Inr m' \<Rightarrow> update_vertex_neighbors N v_idxs m')"

subsection \<open>Vocabulary of the statements\<close>

text \<open>An index that \<open>deref\<close> accepts.\<close>

definition in_range :: "'a list \<Rightarrow> int \<Rightarrow> bool" where
  "in_range xs idx \<longleftrightarrow> 0 \<le> idx \<and> idx < int (length xs)"

text \<open>The position of the vertex a half-edge points to.\<close>

definition corner :: "mesh \<Rightarrow> int \<Rightarrow> vec3" where
  "corner m h = v_position (vertices m ! nat (he_vertex (halfedges m ! nat h)))"

text \<open>
  The scenario of the specification: the triangle \<open>A = (0,0,0)\<close>, \<open>B = (1,0,0)\<close>,
  \<open>C = (0,1,0)\<close> (vertices 0, 1, 2), one face, three half-edges without twins. The
  half-edges run \<open>A \<rightarrow> C \<rightarrow> B \<rightarrow> A\<close>: that is the orientation for which
  \<^verbatim>\<open>update_face_normals\<close> computes the normal \<open>(0,0,1)\<close>; with the cycle
  \<open>A \<rightarrow> B \<rightarrow> C \<rightarrow> A\<close> it computes \<open>(0,0,-1)\<close>. Half-edge 0 leaves \<open>A\<close>. The derived
  fields of \<open>A\<close> before the call are parameters.
\<close>

definition single_triangle :: "int \<Rightarrow> vec3 \<Rightarrow> int list \<Rightarrow> mesh" where
  "single_triangle val0 n0 nb0 = \<lparr>halfedges =
     [\<lparr>he_vertex = 2, he_face = 0, he_twin = -1, he_next = 1, he_prev = 2, he_length = 0\<rparr>,
      \<lparr>he_vertex = 1, he_face = 0, he_twin = -1, he_next = 2, he_prev = 0, he_length = 0\<rparr>,
      \<lparr>he_vertex = 0, he_face = 0, he_twin = -1, he_next = 0, he_prev = 1, he_length = 0\<rparr>],
    vertices =
     [\<lparr>v_position = (0, 0, 0), v_normal = n0, v_halfedge = 0, v_valence = val0, v_neighbors = nb0\<rparr>,
      \<lparr>v_position = (1, 0, 0), v_normal = (0, 0, 0), v_halfedge = 2, v_valence = 0, v_neighbors = nb0\<rparr>,
      \<lparr>v_position = (0, 1, 0), v_normal = (0, 0, 0), v_halfedge = 1, v_valence = 0, v_neighbors = nb0\<rparr>],
    faces = [\<lparr>f_halfedge = 0, f_normal = (0, 0, 0), f_area = 0\<rparr>]\<rparr>"

text \<open>A half-edge without its derived field, and the frame of a ring walk around the vertex
  \<open>v_idx\<close>: the walk writes lengths of half-edges and the \<^verbatim>\<open>neighbors\<close> array of that one
  vertex, and nothing else.\<close>

definition unlength :: "halfedge_t \<Rightarrow> halfedge_t" where
  "unlength e = e\<lparr>he_length := 0\<rparr>"

definition sweep_frame :: "int \<Rightarrow> mesh \<Rightarrow> mesh \<Rightarrow> bool" where
  "sweep_frame v_idx m m' \<longleftrightarrow>
     faces m' = faces m \<and>
     map unlength (halfedges m') = map unlength (halfedges m) \<and>
     vertices m' = (vertices m)[nat v_idx :=
        ((vertices m) ! nat v_idx)\<lparr>v_neighbors := v_neighbors (vertices m' ! nat v_idx)\<rparr>]"

text \<open>The arrays a ring walk leaves behind.\<close>

fun walk_mesh :: "walk \<Rightarrow> mesh" where
  "walk_mesh (Skipped m) = m"
| "walk_mesh (Swept st) = sw_mesh st"

text \<open>The single triangle and a fourth, isolated vertex (its anchor is the sentinel) whose
  derived fields hold recognisable values.\<close>

definition triangle_and_point :: mesh where
  "triangle_and_point =
     (single_triangle 0 (0, 0, 0) (replicate 4 (-1)))
     \<lparr>vertices := vertices (single_triangle 0 (0, 0, 0) (replicate 4 (-1))) @
        [\<lparr>v_position = (5, 5, 5), v_normal = (1, 0, 0), v_halfedge = -1, v_valence = 7,
          v_neighbors = [8, 9, 8, 9]\<rparr>]\<rparr>"

text \<open>The advance of the forward sweep, \<^verbatim>\<open>curr = twin(e).next\<close>.\<close>

definition ring_step :: "mesh \<Rightarrow> int \<Rightarrow> int" where
  "ring_step m e = he_next (halfedges m ! nat (he_twin (halfedges m ! nat e)))"

text \<open>A half-edge of a closed ring: it and its twin exist, and so do its face and the
  vertex it points to.\<close>

definition ring_edge_ok :: "mesh \<Rightarrow> int \<Rightarrow> bool" where
  "ring_edge_ok m e \<longleftrightarrow>
     in_range (halfedges m) e \<and>
     he_twin (halfedges m ! nat e) \<noteq> -1 \<and>
     in_range (halfedges m) (he_twin (halfedges m ! nat e)) \<and>
     in_range (vertices m) (he_vertex (halfedges m ! nat e)) \<and>
     in_range (faces m) (he_face (halfedges m ! nat e))"

text \<open>
  The ring of the vertex \<open>v\<close> is closed and is the list \<open>es\<close>: \<open>es\<close> starts at the anchor of
  \<open>v\<close>, every half-edge of it has a twin, stepping from each one leads to the next and from
  the last one back to the anchor, and the anchor is not met in between. The arrays are
  indexed by a \<^verbatim>\<open>signed int\<close>.
\<close>

definition closed_ring :: "mesh \<Rightarrow> int \<Rightarrow> int list \<Rightarrow> bool" where
  "closed_ring m v es \<longleftrightarrow>
     in_range (vertices m) v \<and> es \<noteq> [] \<and> hd es = v_halfedge (vertices m ! nat v) \<and>
     int (length (halfedges m)) \<le> INT_MAX \<and>
     list_all (ring_edge_ok m) es \<and>
     list_all (\<lambda>e. e \<noteq> hd es) (tl es) \<and>
     map (ring_step m) es = rotate1 es"

text \<open>\<^verbatim>\<open>normal[k] += face.normal[k] * face.area\<close> for the face of the half-edge \<open>e\<close>.\<close>

definition weigh :: "mesh \<Rightarrow> vec3 \<Rightarrow> int \<Rightarrow> vec3" where
  "weigh m normal e =
     add_scaled normal (f_normal (faces m ! nat (he_face (halfedges m ! nat e))))
       (f_area (faces m ! nat (he_face (halfedges m ! nat e))))"

text \<open>The distance from the vertex \<open>v\<close> to the vertex the half-edge \<open>e\<close> points to.\<close>

definition edge_dist :: "mesh \<Rightarrow> int \<Rightarrow> int \<Rightarrow> real" where
  "edge_dist m v e = norm3 (vsub (v_position (vertices m ! nat v)) (corner m e))"

text \<open>
  What the specification assumes of twins on entry, for the half-edges of a ring around
  \<open>v\<close>: the twin of the twin is the half-edge itself, the twin points to \<open>v\<close>, and the
  half-edge does not.
\<close>

definition ring_twins_ok :: "mesh \<Rightarrow> int \<Rightarrow> int list \<Rightarrow> bool" where
  "ring_twins_ok m v es \<longleftrightarrow>
     list_all (\<lambda>e. he_twin (halfedges m ! nat (he_twin (halfedges m ! nat e))) = e \<and>
                   he_vertex (halfedges m ! nat (he_twin (halfedges m ! nat e))) = v \<and>
                   he_vertex (halfedges m ! nat e) \<noteq> v) es"

text \<open>In the mesh \<open>m'\<close> the half-edge \<open>e\<close> and its twin both hold the distance from \<open>v\<close> to the
  vertex \<open>e\<close> points to (positions and links read in \<open>m\<close>).\<close>

definition edge_measured :: "mesh \<Rightarrow> int \<Rightarrow> mesh \<Rightarrow> int \<Rightarrow> bool" where
  "edge_measured m v m' e \<longleftrightarrow>
     he_length (halfedges m' ! nat e) = edge_dist m v e \<and>
     he_length (halfedges m' ! nat (he_twin (halfedges m ! nat e))) = edge_dist m v e"

text \<open>The state of the forward sweep after \<open>j\<close> advances round the closed ring \<open>es\<close>.\<close>

definition ring_inv :: "nat \<Rightarrow> mesh \<Rightarrow> int \<Rightarrow> int list \<Rightarrow> nat \<Rightarrow> sweep \<Rightarrow> bool" where
  "ring_inv N m v es j st \<longleftrightarrow>
     sweep_frame v m (sw_mesh st) \<and>
     curr_idx st = es ! (j mod length es) \<and>
     twin_idx st = he_twin (halfedges m ! nat (curr_idx st)) \<and>
     sw_i st = int j \<and>
     v_neighbors (vertices (sw_mesh st) ! nat v) =
       take (min j N) es @ replicate (N - min j N) (-1) \<and>
     sw_normal st = foldl (weigh m) (0, 0, 0) (take (min j N) es) \<and>
     (ring_twins_ok m v es \<longrightarrow> list_all (edge_measured m v (sw_mesh st)) (take j es))"

text \<open>The locals with which the forward sweep is entered (lines 123 to 139).\<close>

definition start_sweep :: "nat \<Rightarrow> int \<Rightarrow> mesh \<Rightarrow> sweep" where
  "start_sweep N v m =
     \<lparr>sw_mesh = set_neighbors v (replicate N (-1)) m,
      curr_idx = v_halfedge (vertices m ! nat v),
      twin_idx = he_twin (halfedges m ! nat (v_halfedge (vertices m ! nat v))),
      sw_i = 0, sw_normal = (0, 0, 0)\<rparr>"

text \<open>
  A tetrahedron with corners \<open>O = (0,0,0)\<close>, \<open>X\<close>, \<open>Y\<close>, \<open>Z\<close> on the axes (vertices 0 to 3); face
  \<open>f\<close> owns the half-edges \<open>3f\<close>, \<open>3f+1\<close>, \<open>3f+2\<close>, and every half-edge has a twin. The
  ring of \<open>O\<close> is the half-edges 0, 3, 6. The three faces at \<open>O\<close> hold the normal and area
  that \<^verbatim>\<open>update_face_normals\<close> computes for them; the \<^verbatim>\<open>neighbors\<close> arrays are a parameter.
\<close>

definition tetrahedron :: "int list \<Rightarrow> mesh" where
  "tetrahedron nb0 =
   \<lparr>halfedges =
     [\<lparr>he_vertex = 1, he_face = 0, he_twin = 5, he_next = 1, he_prev = 2, he_length = 0\<rparr>,
      \<lparr>he_vertex = 2, he_face = 0, he_twin = 11, he_next = 2, he_prev = 0, he_length = 0\<rparr>,
      \<lparr>he_vertex = 0, he_face = 0, he_twin = 6, he_next = 0, he_prev = 1, he_length = 0\<rparr>,
      \<lparr>he_vertex = 3, he_face = 1, he_twin = 8, he_next = 4, he_prev = 5, he_length = 0\<rparr>,
      \<lparr>he_vertex = 1, he_face = 1, he_twin = 9, he_next = 5, he_prev = 3, he_length = 0\<rparr>,
      \<lparr>he_vertex = 0, he_face = 1, he_twin = 0, he_next = 3, he_prev = 4, he_length = 0\<rparr>,
      \<lparr>he_vertex = 2, he_face = 2, he_twin = 2, he_next = 7, he_prev = 8, he_length = 0\<rparr>,
      \<lparr>he_vertex = 3, he_face = 2, he_twin = 10, he_next = 8, he_prev = 6, he_length = 0\<rparr>,
      \<lparr>he_vertex = 0, he_face = 2, he_twin = 3, he_next = 6, he_prev = 7, he_length = 0\<rparr>,
      \<lparr>he_vertex = 3, he_face = 3, he_twin = 4, he_next = 10, he_prev = 11, he_length = 0\<rparr>,
      \<lparr>he_vertex = 2, he_face = 3, he_twin = 7, he_next = 11, he_prev = 9, he_length = 0\<rparr>,
      \<lparr>he_vertex = 1, he_face = 3, he_twin = 1, he_next = 9, he_prev = 10, he_length = 0\<rparr>],
    vertices =
     [\<lparr>v_position = (0, 0, 0), v_normal = (0, 0, 0), v_halfedge = 0, v_valence = 0, v_neighbors = nb0\<rparr>,
      \<lparr>v_position = (1, 0, 0), v_normal = (0, 0, 0), v_halfedge = 1, v_valence = 0, v_neighbors = nb0\<rparr>,
      \<lparr>v_position = (0, 1, 0), v_normal = (0, 0, 0), v_halfedge = 2, v_valence = 0, v_neighbors = nb0\<rparr>,
      \<lparr>v_position = (0, 0, 1), v_normal = (0, 0, 0), v_halfedge = 4, v_valence = 0, v_neighbors = nb0\<rparr>],
    faces =
     [\<lparr>f_halfedge = 0, f_normal = (0, 0, -1), f_area = 1 / 2\<rparr>,
      \<lparr>f_halfedge = 3, f_normal = (0, -1, 0), f_area = 1 / 2\<rparr>,
      \<lparr>f_halfedge = 6, f_normal = (-1, 0, 0), f_area = 1 / 2\<rparr>,
      \<lparr>f_halfedge = 9, f_normal = (0, 0, 0), f_area = 0\<rparr>]\<rparr>"

text \<open>The scenario of the specification runs the face kernel, then the vertex kernel.\<close>

definition faces_then_vertices :: "nat \<Rightarrow> int list \<Rightarrow> int list \<Rightarrow> mesh \<Rightarrow> error + mesh" where
  "faces_then_vertices N f_idxs v_idxs m =
     (case update_face_normals f_idxs m of
        Inl e \<Rightarrow> Inl e
      | Inr m' \<Rightarrow> update_vertex_neighbors N v_idxs m')"

text \<open>
  An open fan of five triangles around the vertex 0 at the origin, in the plane \<open>z = 0\<close>;
  face \<open>f\<close> owns the half-edges \<open>3f\<close>, \<open>3f+1\<close>, \<open>3f+2\<close>, and \<open>3f\<close> leaves the centre. The
  forward sweep goes from face \<open>f\<close> to face \<open>f+1\<close>. The anchor of the centre is the half-edge
  3, in the second face, so the forward sweep visits 3, 6, 9, 12 and the reverse sweep 0.
\<close>

definition fan5 :: "int list \<Rightarrow> mesh" where
  "fan5 nb0 =
   \<lparr>halfedges =
     [\<lparr>he_vertex = 2, he_face = 0, he_twin = 5, he_next = 1, he_prev = 2, he_length = 0\<rparr>,
      \<lparr>he_vertex = 1, he_face = 0, he_twin = -1, he_next = 2, he_prev = 0, he_length = 0\<rparr>,
      \<lparr>he_vertex = 0, he_face = 0, he_twin = -1, he_next = 0, he_prev = 1, he_length = 0\<rparr>,
      \<lparr>he_vertex = 3, he_face = 1, he_twin = 8, he_next = 4, he_prev = 5, he_length = 0\<rparr>,
      \<lparr>he_vertex = 2, he_face = 1, he_twin = -1, he_next = 5, he_prev = 3, he_length = 0\<rparr>,
      \<lparr>he_vertex = 0, he_face = 1, he_twin = 0, he_next = 3, he_prev = 4, he_length = 0\<rparr>,
      \<lparr>he_vertex = 4, he_face = 2, he_twin = 11, he_next = 7, he_prev = 8, he_length = 0\<rparr>,
      \<lparr>he_vertex = 3, he_face = 2, he_twin = -1, he_next = 8, he_prev = 6, he_length = 0\<rparr>,
      \<lparr>he_vertex = 0, he_face = 2, he_twin = 3, he_next = 6, he_prev = 7, he_length = 0\<rparr>,
      \<lparr>he_vertex = 5, he_face = 3, he_twin = 14, he_next = 10, he_prev = 11, he_length = 0\<rparr>,
      \<lparr>he_vertex = 4, he_face = 3, he_twin = -1, he_next = 11, he_prev = 9, he_length = 0\<rparr>,
      \<lparr>he_vertex = 0, he_face = 3, he_twin = 6, he_next = 9, he_prev = 10, he_length = 0\<rparr>,
      \<lparr>he_vertex = 6, he_face = 4, he_twin = -1, he_next = 13, he_prev = 14, he_length = 0\<rparr>,
      \<lparr>he_vertex = 5, he_face = 4, he_twin = -1, he_next = 14, he_prev = 12, he_length = 0\<rparr>,
      \<lparr>he_vertex = 0, he_face = 4, he_twin = 9, he_next = 12, he_prev = 13, he_length = 0\<rparr>],
    vertices =
     [\<lparr>v_position = (0, 0, 0), v_normal = (0, 0, 0), v_halfedge = 3, v_valence = 0, v_neighbors = nb0\<rparr>,
      \<lparr>v_position = (1, 0, 0), v_normal = (0, 0, 0), v_halfedge = 2, v_valence = 0, v_neighbors = nb0\<rparr>,
      \<lparr>v_position = (1, 1, 0), v_normal = (0, 0, 0), v_halfedge = 1, v_valence = 0, v_neighbors = nb0\<rparr>,
      \<lparr>v_position = (0, 1, 0), v_normal = (0, 0, 0), v_halfedge = 4, v_valence = 0, v_neighbors = nb0\<rparr>,
      \<lparr>v_position = (-1, 1, 0), v_normal = (0, 0, 0), v_halfedge = 7, v_valence = 0, v_neighbors = nb0\<rparr>,
      \<lparr>v_position = (-1, 0, 0), v_normal = (0, 0, 0), v_halfedge = 10, v_valence = 0, v_neighbors = nb0\<rparr>,
      \<lparr>v_position = (-1, -1, 0), v_normal = (0, 0, 0), v_halfedge = 13, v_valence = 0, v_neighbors = nb0\<rparr>],
    faces =
     [\<lparr>f_halfedge = 0, f_normal = (0, 0, 1), f_area = 1 / 2\<rparr>,
      \<lparr>f_halfedge = 3, f_normal = (0, 0, 1), f_area = 1 / 2\<rparr>,
      \<lparr>f_halfedge = 6, f_normal = (0, 0, 1), f_area = 1 / 2\<rparr>,
      \<lparr>f_halfedge = 9, f_normal = (0, 0, 1), f_area = 1 / 2\<rparr>,
      \<lparr>f_halfedge = 12, f_normal = (0, 0, 1), f_area = 1 / 2\<rparr>]\<rparr>"

text \<open>
  Two triangles glued back to back along all three edges: a closed surface on the vertices
  \<open>A = (0,0,0)\<close>, \<open>B = (1,0,0)\<close>, \<open>C = (0,1,0)\<close>, with every half-edge paired with a twin. The
  derived fields are all zero.
\<close>

definition pillow :: "int list \<Rightarrow> mesh" where
  "pillow nb0 =
   \<lparr>halfedges =
     [\<lparr>he_vertex = 2, he_face = 0, he_twin = 5, he_next = 1, he_prev = 2, he_length = 0\<rparr>,
      \<lparr>he_vertex = 1, he_face = 0, he_twin = 4, he_next = 2, he_prev = 0, he_length = 0\<rparr>,
      \<lparr>he_vertex = 0, he_face = 0, he_twin = 3, he_next = 0, he_prev = 1, he_length = 0\<rparr>,
      \<lparr>he_vertex = 1, he_face = 1, he_twin = 2, he_next = 4, he_prev = 5, he_length = 0\<rparr>,
      \<lparr>he_vertex = 2, he_face = 1, he_twin = 1, he_next = 5, he_prev = 3, he_length = 0\<rparr>,
      \<lparr>he_vertex = 0, he_face = 1, he_twin = 0, he_next = 3, he_prev = 4, he_length = 0\<rparr>],
    vertices =
     [\<lparr>v_position = (0, 0, 0), v_normal = (0, 0, 0), v_halfedge = 0, v_valence = 0, v_neighbors = nb0\<rparr>,
      \<lparr>v_position = (1, 0, 0), v_normal = (0, 0, 0), v_halfedge = 2, v_valence = 0, v_neighbors = nb0\<rparr>,
      \<lparr>v_position = (0, 1, 0), v_normal = (0, 0, 0), v_halfedge = 1, v_valence = 0, v_neighbors = nb0\<rparr>],
    faces =
     [\<lparr>f_halfedge = 0, f_normal = (0, 0, 0), f_area = 0\<rparr>,
      \<lparr>f_halfedge = 3, f_normal = (0, 0, 0), f_area = 0\<rparr>]\<rparr>"

text \<open>The area-weighted normal of the face of the half-edge \<open>e\<close>.\<close>

definition weighted :: "mesh \<Rightarrow> int \<Rightarrow> vec3" where
  "weighted m e = add_scaled (0, 0, 0) (f_normal (faces m ! nat (he_face (halfedges m ! nat e))))
       (f_area (faces m ! nat (he_face (halfedges m ! nat e))))"

text \<open>What a slot of \<^verbatim>\<open>neighbors\<close> stands for in the normal: nothing when it holds the
  sentinel, the weighted normal of the face of its half-edge otherwise.\<close>

definition contrib :: "mesh \<Rightarrow> int \<Rightarrow> vec3" where
  "contrib m e = (if e = -1 then (0, 0, 0) else weighted m e)"

text \<open>
  While a vertex is walked: the \<^verbatim>\<open>neighbors\<close> array has its \<open>N\<close> slots, the running normal
  is the sum over the slots, and the slots from \<open>k\<close> on still hold the sentinel.
\<close>

definition slots_inv :: "nat \<Rightarrow> mesh \<Rightarrow> int \<Rightarrow> mesh \<Rightarrow> vec3 \<Rightarrow> nat \<Rightarrow> bool" where
  "slots_inv N m v ms normal k \<longleftrightarrow>
     sweep_frame v m ms \<and>
     length (v_neighbors (vertices ms ! nat v)) = N \<and>
     normal = sum_list (map (contrib m) (v_neighbors (vertices ms ! nat v))) \<and>
     (\<forall>s. k \<le> s \<and> s < N \<longrightarrow> v_neighbors (vertices ms ! nat v) ! s = -1)"

text \<open>The cross product of the face kernel, from the corners of the face \<open>f\<close>.\<close>

definition face_cross :: "mesh \<Rightarrow> int \<Rightarrow> vec3" where
  "face_cross m f =
     (let h = f_halfedge (faces m ! nat f);
          p = he_prev (halfedges m ! nat h);
          nx = he_next (halfedges m ! nat h)
      in cross (vsub (corner m p) (corner m h)) (vsub (corner m nx) (corner m h)))"

text \<open>The two triangles glued back to back, with the link \<^verbatim>\<open>next\<close> of the half-edge 5 (the
  twin of the anchor of the vertex 0) missing.\<close>

definition pillow_cut :: "int list \<Rightarrow> mesh" where
  "pillow_cut nb0 =
     (pillow nb0)\<lparr>halfedges := (halfedges (pillow nb0))
        [5 := \<lparr>he_vertex = 0, he_face = 1, he_twin = 0, he_next = -1, he_prev = 4, he_length = 0\<rparr>]\<rparr>"

text \<open>The fan of five triangles with the anchor of the centre at the half-edge \<open>a\<close> and the
  valence \<open>val0\<close> stored in the centre.\<close>

definition fan5_anchored :: "int \<Rightarrow> int \<Rightarrow> int list \<Rightarrow> mesh" where
  "fan5_anchored a val0 nb0 =
     (fan5 nb0)\<lparr>vertices := (vertices (fan5 nb0))
        [0 := \<lparr>v_position = (0, 0, 0), v_normal = (0, 0, 0), v_halfedge = a, v_valence = val0,
               v_neighbors = nb0\<rparr>]\<rparr>"

text \<open>The loop \<^verbatim>\<open>out[k] = n[k]/nn\<close> of both kernels.\<close>

definition divided :: "vec3 \<Rightarrow> real \<Rightarrow> vec3" where
  "divided n nn = (case n of (n0, n1, n2) \<Rightarrow> (n0 / nn, n1 / nn, n2 / nn))"











section \<open>Reasoning about the two sweeps\<close>

declare forward_sweep.simps [simp del] reverse_sweep.simps [simp del] swap_down.simps [simp del]

lemma deref_Inr_iff: "deref xs i = Inr x \<longleftrightarrow> 0 \<le> i \<and> i < int (length xs) \<and> x = xs ! nat i"
  by (auto simp: deref_def)

text \<open>
  Rule induction over the runs of the forward sweep that return: one case for each way
  out of the loop, and one for an iteration that goes round again.
\<close>

lemma forward_sweep_Inr_induct [consumes 1, case_names sentinel boundary closed step]:
  assumes run: "forward_sweep N v orig st = Inr st'"
  assumes sentinel: "\<And>st. curr_idx st = -1 \<Longrightarrow> P st st"
  assumes boundary: "\<And>st m2 normal l.
     curr_idx st \<noteq> -1 \<Longrightarrow>
     visit N v (curr_idx st) (sw_i st) (sw_mesh st) (sw_normal st) = Inr (m2, normal, l) \<Longrightarrow>
     twin_idx st = -1 \<Longrightarrow> P st (st\<lparr>sw_mesh := m2, sw_normal := normal\<rparr>)"
  assumes closed: "\<And>st m2 normal l m3 c.
     curr_idx st \<noteq> -1 \<Longrightarrow>
     visit N v (curr_idx st) (sw_i st) (sw_mesh st) (sw_normal st) = Inr (m2, normal, l) \<Longrightarrow>
     twin_idx st \<noteq> -1 \<Longrightarrow> set_length (twin_idx st) l m2 = Inr m3 \<Longrightarrow>
     0 \<le> twin_idx st \<Longrightarrow> twin_idx st < int (length (halfedges m3)) \<Longrightarrow>
     c = he_next (halfedges m3 ! nat (twin_idx st)) \<Longrightarrow>
     0 \<le> c \<Longrightarrow> c < int (length (halfedges m3)) \<Longrightarrow> sw_i st < INT_MAX \<Longrightarrow> c = orig \<Longrightarrow>
     P st \<lparr>sw_mesh = m3, curr_idx = c, twin_idx = he_twin (halfedges m3 ! nat c),
           sw_i = sw_i st + 1, sw_normal = normal\<rparr>"
  assumes step: "\<And>st st' st1 m2 normal l m3 c.
     curr_idx st \<noteq> -1 \<Longrightarrow>
     visit N v (curr_idx st) (sw_i st) (sw_mesh st) (sw_normal st) = Inr (m2, normal, l) \<Longrightarrow>
     twin_idx st \<noteq> -1 \<Longrightarrow> set_length (twin_idx st) l m2 = Inr m3 \<Longrightarrow>
     0 \<le> twin_idx st \<Longrightarrow> twin_idx st < int (length (halfedges m3)) \<Longrightarrow>
     c = he_next (halfedges m3 ! nat (twin_idx st)) \<Longrightarrow>
     0 \<le> c \<Longrightarrow> c < int (length (halfedges m3)) \<Longrightarrow> sw_i st < INT_MAX \<Longrightarrow> c \<noteq> orig \<Longrightarrow>
     st1 = \<lparr>sw_mesh = m3, curr_idx = c, twin_idx = he_twin (halfedges m3 ! nat c),
           sw_i = sw_i st + 1, sw_normal = normal\<rparr> \<Longrightarrow>
     forward_sweep N v orig st1 = Inr st' \<Longrightarrow> P st1 st' \<Longrightarrow> P st st'"
  shows "P st st'"
  using run
proof (induction "nat (INT_MAX - sw_i st)" arbitrary: st rule: less_induct)
  case less
  note run = less.prems
  show ?case
  proof (cases "curr_idx st = -1")
    case True
    with run sentinel show ?thesis
      by (simp add: forward_sweep.simps)
  next
    case False
    from run False obtain m2 normal l where
      vi: "visit N v (curr_idx st) (sw_i st) (sw_mesh st) (sw_normal st) = Inr (m2, normal, l)"
      by (subst (asm) forward_sweep.simps) (auto split: sum.splits prod.splits)
    show ?thesis
    proof (cases "twin_idx st = -1")
      case True
      with run False vi have "st' = st\<lparr>sw_mesh := m2, sw_normal := normal\<rparr>"
        by (subst (asm) forward_sweep.simps) auto
      with boundary[OF False vi True] show ?thesis by simp
    next
      case tw: False
      from run False tw vi obtain m3 twin_edge curr_edge where
        s3: "set_length (twin_idx st) l m2 = Inr m3"
        and d1: "deref (halfedges m3) (twin_idx st) = Inr twin_edge"
        and d2: "deref (halfedges m3) (he_next twin_edge) = Inr curr_edge"
        and ov: "\<not> INT_MAX \<le> sw_i st"
        by (subst (asm) forward_sweep.simps) (auto split: sum.splits if_splits simp: Let_def)
      let ?c = "he_next twin_edge"
      let ?st1 = "\<lparr>sw_mesh = m3, curr_idx = ?c, twin_idx = he_twin curr_edge,
                         sw_i = sw_i st + 1, sw_normal = normal\<rparr>"
      from d1 have r1: "0 \<le> twin_idx st" "twin_idx st < int (length (halfedges m3))"
        and te: "twin_edge = halfedges m3 ! nat (twin_idx st)"
        by (simp_all add: deref_Inr_iff)
      from d2 have r2: "0 \<le> ?c" "?c < int (length (halfedges m3))"
        and ce: "curr_edge = halfedges m3 ! nat ?c"
        by (simp_all add: deref_Inr_iff)
      from ov have ov': "sw_i st < INT_MAX" by simp
      show ?thesis
      proof (cases "?c = orig")
        case True
        with run False tw vi s3 d1 d2 ov have "st' = ?st1"
          by (subst (asm) forward_sweep.simps) (auto simp: Let_def)
        moreover have "P st ?st1"
          unfolding ce te
          by (rule closed[OF False vi tw s3 r1 refl r2[unfolded te] ov' True[unfolded te]])
        ultimately show ?thesis by simp
      next
        case no: False
        with run False tw vi s3 d1 d2 ov
        have r: "forward_sweep N v orig ?st1 = Inr st'"
          by (subst (asm) forward_sweep.simps) (auto simp: Let_def)
        have "nat (INT_MAX - sw_i ?st1) < nat (INT_MAX - sw_i st)"
          using ov' by simp
        then have ih: "P ?st1 st'"
          using less.hyps r by blast
        show ?thesis
          by (rule step[OF False vi tw s3 r1 refl r2[unfolded te] ov' no[unfolded te] refl
                r[unfolded ce te] ih[unfolded ce te]])
      qed
    qed
  qed
qed


text \<open>The same for the reverse sweep.\<close>

lemma reverse_sweep_Inr_induct [consumes 1, case_names sentinel no_prev stop step]:
  assumes run: "reverse_sweep N v orig st = Inr st'"
  assumes sentinel: "\<And>st. curr_idx st = -1 \<Longrightarrow> P st st"
  assumes no_prev: "\<And>st m2 normal l m3.
     curr_idx st \<noteq> -1 \<Longrightarrow>
     visit N v (curr_idx st) (sw_i st) (sw_mesh st) (sw_normal st) = Inr (m2, normal, l) \<Longrightarrow>
     set_length (twin_idx st) l m2 = Inr m3 \<Longrightarrow>
     0 \<le> curr_idx st \<Longrightarrow> curr_idx st < int (length (halfedges m3)) \<Longrightarrow>
     he_prev (halfedges m3 ! nat (curr_idx st)) = -1 \<Longrightarrow>
     P st (st\<lparr>sw_mesh := m3, twin_idx := -1, sw_normal := normal\<rparr>)"
  assumes stop: "\<And>st m2 normal l m3 t c.
     curr_idx st \<noteq> -1 \<Longrightarrow>
     visit N v (curr_idx st) (sw_i st) (sw_mesh st) (sw_normal st) = Inr (m2, normal, l) \<Longrightarrow>
     set_length (twin_idx st) l m2 = Inr m3 \<Longrightarrow>
     0 \<le> curr_idx st \<Longrightarrow> curr_idx st < int (length (halfedges m3)) \<Longrightarrow>
     t = he_prev (halfedges m3 ! nat (curr_idx st)) \<Longrightarrow> t \<noteq> -1 \<Longrightarrow>
     0 \<le> t \<Longrightarrow> t < int (length (halfedges m3)) \<Longrightarrow>
     c = he_twin (halfedges m3 ! nat t) \<Longrightarrow> c = -1 \<or> c = orig \<Longrightarrow>
     P st (st\<lparr>sw_mesh := m3, curr_idx := c, twin_idx := t, sw_normal := normal\<rparr>)"
  assumes step: "\<And>st st' st1 m2 normal l m3 t c.
     curr_idx st \<noteq> -1 \<Longrightarrow>
     visit N v (curr_idx st) (sw_i st) (sw_mesh st) (sw_normal st) = Inr (m2, normal, l) \<Longrightarrow>
     set_length (twin_idx st) l m2 = Inr m3 \<Longrightarrow>
     0 \<le> curr_idx st \<Longrightarrow> curr_idx st < int (length (halfedges m3)) \<Longrightarrow>
     t = he_prev (halfedges m3 ! nat (curr_idx st)) \<Longrightarrow> t \<noteq> -1 \<Longrightarrow>
     0 \<le> t \<Longrightarrow> t < int (length (halfedges m3)) \<Longrightarrow>
     c = he_twin (halfedges m3 ! nat t) \<Longrightarrow> c \<noteq> -1 \<Longrightarrow> c \<noteq> orig \<Longrightarrow>
     sw_i st < INT_MAX \<Longrightarrow>
     st1 = \<lparr>sw_mesh = m3, curr_idx = c, twin_idx = t, sw_i = sw_i st + 1, sw_normal = normal\<rparr> \<Longrightarrow>
     reverse_sweep N v orig st1 = Inr st' \<Longrightarrow> P st1 st' \<Longrightarrow> P st st'"
  shows "P st st'"
  using run
proof (induction "nat (INT_MAX - sw_i st)" arbitrary: st rule: less_induct)
  case less
  note run = less.prems
  show ?case
  proof (cases "curr_idx st = -1")
    case True
    with run sentinel show ?thesis
      by (simp add: reverse_sweep.simps)
  next
    case False
    from run False obtain m2 normal l m3 curr_edge where
      vi: "visit N v (curr_idx st) (sw_i st) (sw_mesh st) (sw_normal st) = Inr (m2, normal, l)"
      and s3: "set_length (twin_idx st) l m2 = Inr m3"
      and d1: "deref (halfedges m3) (curr_idx st) = Inr curr_edge"
      by (subst (asm) reverse_sweep.simps) (auto split: sum.splits prod.splits)
    from d1 have r1: "0 \<le> curr_idx st" "curr_idx st < int (length (halfedges m3))"
      and ce: "curr_edge = halfedges m3 ! nat (curr_idx st)"
      by (simp_all add: deref_Inr_iff)
    let ?t = "he_prev curr_edge"
    show ?thesis
    proof (cases "?t = -1")
      case True
      with run False vi s3 d1 have "st' = st\<lparr>sw_mesh := m3, twin_idx := -1, sw_normal := normal\<rparr>"
        by (subst (asm) reverse_sweep.simps) (auto simp: Let_def)
      with no_prev[OF False vi s3 r1 True[unfolded ce]] show ?thesis by simp
    next
      case tn: False
      from run False vi s3 d1 tn obtain twin_edge where
        d2: "deref (halfedges m3) ?t = Inr twin_edge"
        by (subst (asm) reverse_sweep.simps) (auto split: sum.splits simp: Let_def)
      from d2 have r2: "0 \<le> ?t" "?t < int (length (halfedges m3))"
        and te: "twin_edge = halfedges m3 ! nat ?t"
        by (simp_all add: deref_Inr_iff)
      let ?c = "he_twin twin_edge"
      show ?thesis
      proof (cases "?c = -1 \<or> ?c = orig")
        case True
        with run False vi s3 d1 tn d2
        have "st' = st\<lparr>sw_mesh := m3, curr_idx := ?c, twin_idx := ?t, sw_normal := normal\<rparr>"
          by (subst (asm) reverse_sweep.simps) (auto simp: Let_def)
        moreover have "P st (st\<lparr>sw_mesh := m3, curr_idx := ?c, twin_idx := ?t, sw_normal := normal\<rparr>)"
          unfolding te ce
          by (rule stop[OF False vi s3 r1 refl tn[unfolded ce] r2[unfolded ce] refl
                True[unfolded te ce]])
        ultimately show ?thesis by simp
      next
        case go: False
        then have c1: "?c \<noteq> -1" and c2: "?c \<noteq> orig" by simp_all
        let ?st1 = "\<lparr>sw_mesh = m3, curr_idx = ?c, twin_idx = ?t, sw_i = sw_i st + 1,
                     sw_normal = normal\<rparr>"
        from run False vi s3 d1 tn d2 go have ov: "sw_i st < INT_MAX"
          and r: "reverse_sweep N v orig ?st1 = Inr st'"
          by (subst (asm) reverse_sweep.simps; auto simp: Let_def split: if_splits)+
        have "nat (INT_MAX - sw_i ?st1) < nat (INT_MAX - sw_i st)"
          using ov by simp
        then have ih: "P ?st1 st'"
          using less.hyps r by blast
        show ?thesis
          by (rule step[OF False vi s3 r1 refl tn[unfolded ce] r2[unfolded ce] refl
                c1[unfolded te ce] c2[unfolded te ce] ov refl r[unfolded te ce] ih[unfolded te ce]])
      qed
    qed
  qed
qed

lemma deref_in_range: "in_range xs idx \<Longrightarrow> deref xs idx = Inr (xs ! nat idx)"
  by (simp add: deref_def in_range_def)

section \<open>The face kernel\<close>

text \<open>
  Claim C7. For a face index \<open>f\<close> other than the sentinel whose half-edge \<open>h\<close>, and the
  \<open>prev\<close> and \<open>next\<close> of \<open>h\<close>, are not the sentinel (and, as every index the code reads
  through, lie in their arrays), the step of \<^verbatim>\<open>update_face_normals\<close> for \<open>f\<close> returns, and
  changes nothing but \<open>face[f].area\<close>, which becomes \<open>0.5 * norm(n)\<close>, and
  \<open>face[f].normal\<close>, which becomes \<open>n / norm(n)\<close> when \<open>norm(n) > 0\<close> and the zero vector
  otherwise, where \<open>n = cross(c1 - c0, c2 - c0)\<close> and \<open>c0\<close>, \<open>c1\<close>, \<open>c2\<close> are the positions of
  the vertices that \<open>h\<close>, \<open>prev(h)\<close> and \<open>next(h)\<close> point to.
\<close>

theorem face_step_area_normal:
  assumes f: "f_idx \<noteq> -1" "in_range (faces m) f_idx"
    and h: "h = f_halfedge (faces m ! nat f_idx)" "h \<noteq> -1" "in_range (halfedges m) h"
    and p: "p = he_prev (halfedges m ! nat h)" "p \<noteq> -1" "in_range (halfedges m) p"
    and nx: "nx = he_next (halfedges m ! nat h)" "nx \<noteq> -1" "in_range (halfedges m) nx"
    and vs: "in_range (vertices m) (he_vertex (halfedges m ! nat h))"
            "in_range (vertices m) (he_vertex (halfedges m ! nat p))"
            "in_range (vertices m) (he_vertex (halfedges m ! nat nx))"
    and n: "n = cross (vsub (corner m p) (corner m h)) (vsub (corner m nx) (corner m h))"
  shows "face_step f_idx m = Inr (m\<lparr>faces := (faces m)[nat f_idx := (faces m ! nat f_idx)
           \<lparr>f_area := 0.5 * norm3 n,
            f_normal := (if norm3 n > 0
              then (fst n / norm3 n, fst (snd n) / norm3 n, snd (snd n) / norm3 n)
              else (0, 0, 0))\<rparr>]\<rparr>)"
proof -
  have nrm: "normalized n =
      (if norm3 n > 0 then (fst n / norm3 n, fst (snd n) / norm3 n, snd (snd n) / norm3 n)
       else (0, 0, 0))"
    by (cases n) (simp add: normalized_def Let_def)
  show ?thesis
    unfolding nrm[symmetric]
    using f h p nx vs n
    by (simp add: face_step_def deref_in_range Let_def corner_def)
qed

lemma single_triangle_sel:
  "halfedges (single_triangle val0 n0 nb0) =
     [\<lparr>he_vertex = 2, he_face = 0, he_twin = -1, he_next = 1, he_prev = 2, he_length = 0\<rparr>,
      \<lparr>he_vertex = 1, he_face = 0, he_twin = -1, he_next = 2, he_prev = 0, he_length = 0\<rparr>,
      \<lparr>he_vertex = 0, he_face = 0, he_twin = -1, he_next = 0, he_prev = 1, he_length = 0\<rparr>]"
  "vertices (single_triangle val0 n0 nb0) =
     [\<lparr>v_position = (0, 0, 0), v_normal = n0, v_halfedge = 0, v_valence = val0, v_neighbors = nb0\<rparr>,
      \<lparr>v_position = (1, 0, 0), v_normal = (0, 0, 0), v_halfedge = 2, v_valence = 0, v_neighbors = nb0\<rparr>,
      \<lparr>v_position = (0, 1, 0), v_normal = (0, 0, 0), v_halfedge = 1, v_valence = 0, v_neighbors = nb0\<rparr>]"
  "faces (single_triangle val0 n0 nb0) = [\<lparr>f_halfedge = 0, f_normal = (0, 0, 0), f_area = 0\<rparr>]"
  by (simp_all add: single_triangle_def)

text \<open>The theorem at the single triangle: area one half, normal \<open>(0,0,1)\<close>.\<close>

theorem face_step_area_normal_witness:
  "f_area (faces (projr (face_step 0 (single_triangle 0 (0, 0, 0) (replicate 4 (-1))))) ! 0) = 1 / 2 \<and>
   f_normal (faces (projr (face_step 0 (single_triangle 0 (0, 0, 0) (replicate 4 (-1))))) ! 0) = (0, 0, 1)"
proof -
  let ?T = "single_triangle 0 (0, 0, 0) (replicate 4 (-1))"
  have n: "cross (vsub (corner ?T 2) (corner ?T 0)) (vsub (corner ?T 1) (corner ?T 0)) = (0, 0, 1)"
    by (simp add: single_triangle_sel corner_def cross_def vsub_def)
  let ?n = "(0, 0, 1) :: vec3"
  have "face_step 0 ?T = Inr (?T\<lparr>faces := (faces ?T)[nat 0 := (faces ?T ! nat 0)
           \<lparr>f_area := 0.5 * norm3 ?n,
            f_normal := (if norm3 ?n > 0
              then (fst ?n / norm3 ?n, fst (snd ?n) / norm3 ?n, snd (snd ?n) / norm3 ?n)
              else (0, 0, 0))\<rparr>]\<rparr>)"
    by (rule face_step_area_normal[where h = 0 and p = 2 and nx = 1])
       (simp_all add: single_triangle_sel in_range_def n)
  then show ?thesis
    by (simp add: single_triangle_sel norm3_def)
qed

subsection \<open>What a ring walk leaves alone\<close>

lemma sweep_frame_refl: "sweep_frame v m m"
  by (simp add: sweep_frame_def list_update_same_conv[THEN iffD2] )

lemma sweep_frame_trans:
  assumes "sweep_frame v m1 m2" and "sweep_frame v m2 m3"
  shows "sweep_frame v m1 m3"
proof -
  have l: "length (vertices m2) = length (vertices m1)"
    using assms(1) unfolding sweep_frame_def by (metis length_list_update)
  show ?thesis
  proof (cases "nat v < length (vertices m1)")
    case True
    with assms l show ?thesis
      unfolding sweep_frame_def
      by (metis (no_types, lifting) list_update_overwrite nth_list_update_eq vertex_t.update_convs(5) vertex_t.surjective vertex_t.simps)
  next
    case False
    with assms l show ?thesis
      unfolding sweep_frame_def by (simp add: list_update_beyond)
  qed
qed

lemma set_length_frame: "set_length idx l m = Inr m' \<Longrightarrow> sweep_frame v m m'"
  by (auto simp: set_length_def sweep_frame_def deref_Inr_iff map_update unlength_def
      list_update_same_conv[THEN iffD2] split: sum.splits)

lemma set_neighbors_frame: "sweep_frame v m (set_neighbors v nb m)"
  by (cases "nat v < length (vertices m)") (auto simp: set_neighbors_def sweep_frame_def list_update_beyond)

lemma accumulate_frame: "accumulate N v cur i m normal = Inr (m', normal') \<Longrightarrow> sweep_frame v m m'"
  by (auto simp: accumulate_def Let_def set_neighbors_frame sweep_frame_refl split: if_splits sum.splits)

lemma visit_frame:
  assumes "visit N v cur i m normal = Inr (m', normal', l)"
  shows "sweep_frame v m m'"
proof -
  from assms obtain m1 where
    a: "accumulate N v cur i m normal = Inr (m1, normal')"
    and s: "set_length cur l m1 = Inr m'"
    unfolding visit_def by (auto split: sum.splits prod.splits)
  from accumulate_frame[OF a] set_length_frame[OF s] show ?thesis
    by (rule sweep_frame_trans)
qed

lemma visit_twin_frame:
  assumes "visit N v cur i m normal = Inr (m2, normal', l)"
    and "set_length idx l m2 = Inr m3"
  shows "sweep_frame v m m3"
  using visit_frame[OF assms(1)] set_length_frame[OF assms(2)]
  by (rule sweep_frame_trans)

lemma forward_sweep_frame:
  "forward_sweep N v orig st = Inr st' \<Longrightarrow> sweep_frame v (sw_mesh st) (sw_mesh st')"
proof (induction rule: forward_sweep_Inr_induct)
  case (sentinel st)
  show ?case by (simp add: sweep_frame_refl)
next
  case (boundary st m2 normal l)
  then show ?case by (simp add: visit_frame)
next
  case (closed st m2 normal l m3 c)
  from visit_twin_frame[OF closed(2) closed(4)] show ?case by simp
next
  case (step st st' st1 m2 normal l m3 c)
  from visit_twin_frame[OF step(2) step(4)] have "sweep_frame v (sw_mesh st) (sw_mesh st1)"
    using step(12) by simp
  then show ?case
    using step(14) by (rule sweep_frame_trans)
qed

lemma reverse_sweep_frame:
  "reverse_sweep N v orig st = Inr st' \<Longrightarrow> sweep_frame v (sw_mesh st) (sw_mesh st')"
proof (induction rule: reverse_sweep_Inr_induct)
  case (sentinel st)
  show ?case by (simp add: sweep_frame_refl)
next
  case (no_prev st m2 normal l m3)
  from visit_twin_frame[OF no_prev(2) no_prev(3)] show ?case by simp
next
  case (stop st m2 normal l m3 t c)
  from visit_twin_frame[OF stop(2) stop(3)] show ?case by simp
next
  case (step st st' st1 m2 normal l m3 t c)
  from visit_twin_frame[OF step(2) step(3)] have "sweep_frame v (sw_mesh st) (sw_mesh st1)"
    using step(14) by simp
  then show ?case
    using step(16) by (rule sweep_frame_trans)
qed

lemma boundary_fallback_frame:
  assumes "boundary_fallback N v orig st = Inr w"
  shows "sweep_frame v (sw_mesh st) (walk_mesh w)"
proof -
  from assms obtain nb where
    nb: "swap_down N (sw_i st) (v_neighbors (vertices (sw_mesh st) ! nat v)) = Inr nb"
    unfolding boundary_fallback_def
    by (auto simp: deref_Inr_iff split: sum.splits)
  let ?m1 = "set_neighbors v nb (sw_mesh st)"
  have f1: "sweep_frame v (sw_mesh st) ?m1"
    by (rule set_neighbors_frame)
  from assms nb have
    "w = Skipped ?m1 \<or> (\<exists>st0 st'. sw_mesh st0 = ?m1 \<and> reverse_sweep N v orig st0 = Inr st' \<and> w = Swept st')"
    unfolding boundary_fallback_def
    by (auto simp: Let_def deref_Inr_iff split: sum.splits if_splits)
  then show ?thesis
  proof
    assume "w = Skipped ?m1"
    with f1 show ?thesis by simp
  next
    assume "\<exists>st0 st'. sw_mesh st0 = ?m1 \<and> reverse_sweep N v orig st0 = Inr st' \<and> w = Swept st'"
    then obtain st0 st' where "sw_mesh st0 = ?m1" "reverse_sweep N v orig st0 = Inr st'" "w = Swept st'"
      by blast
    with reverse_sweep_frame[of N v orig st0 st'] have "sweep_frame v ?m1 (walk_mesh w)"
      by simp
    with f1 show ?thesis
      by (rule sweep_frame_trans)
  qed
qed

lemma ring_walk_cases:
  assumes "ring_walk N v m = Inr w"
  obtains (isolated) "in_range (vertices m) v" "v_halfedge (vertices m ! nat v) = -1" "w = Skipped m"
  | (walked) st where "in_range (vertices m) v" "v_halfedge (vertices m ! nat v) \<noteq> -1"
      "in_range (halfedges m) (v_halfedge (vertices m ! nat v))"
      "forward_sweep N v (v_halfedge (vertices m ! nat v))
         \<lparr>sw_mesh = set_neighbors v (replicate N (-1)) m,
          curr_idx = v_halfedge (vertices m ! nat v),
          twin_idx = he_twin (halfedges m ! nat (v_halfedge (vertices m ! nat v))),
          sw_i = 0, sw_normal = (0, 0, 0)\<rparr> = Inr st"
      "if twin_idx st = -1 \<and> curr_idx st \<noteq> -1
       then boundary_fallback N v (v_halfedge (vertices m ! nat v)) st = Inr w
       else w = Swept st"
  using assms unfolding ring_walk_def
  by (auto simp: Let_def deref_Inr_iff in_range_def split: sum.splits if_splits)

lemma ring_walk_frame:
  assumes "ring_walk N v m = Inr w"
  shows "sweep_frame v m (walk_mesh w)"
  using assms
proof (cases rule: ring_walk_cases)
  case isolated
  then show ?thesis by (simp add: sweep_frame_refl)
next
  case (walked st)
  have f0: "sweep_frame v m (set_neighbors v (replicate N (-1)) m)"
    by (rule set_neighbors_frame)
  have "sweep_frame v (set_neighbors v (replicate N (-1)) m) (sw_mesh st)"
    using forward_sweep_frame[OF walked(4)] by simp
  with f0 have f1: "sweep_frame v m (sw_mesh st)"
    by (rule sweep_frame_trans)
  show ?thesis
  proof (cases "twin_idx st = -1 \<and> curr_idx st \<noteq> -1")
    case True
    with walked(5) have "boundary_fallback N v (v_halfedge (vertices m ! nat v)) st = Inr w"
      by simp
    from f1 boundary_fallback_frame[OF this] show ?thesis
      by (rule sweep_frame_trans)
  next
    case False
    with walked(5) f1 show ?thesis by auto
  qed
qed

lemma sweep_frame_length: "sweep_frame v m m' \<Longrightarrow> length (vertices m') = length (vertices m)"
  unfolding sweep_frame_def by (metis length_list_update)

lemma sweep_frame_other:
  "sweep_frame v m m' \<Longrightarrow> w \<noteq> nat v \<Longrightarrow> vertices m' ! w = vertices m ! w"
  unfolding sweep_frame_def by (metis nth_list_update_neq)

lemma sweep_frame_same:
  assumes "sweep_frame v m m'"
  shows "v_halfedge (vertices m' ! w) = v_halfedge (vertices m ! w)"
    and "v_position (vertices m' ! w) = v_position (vertices m ! w)"
    and "v_valence (vertices m' ! w) = v_valence (vertices m ! w)"
    and "v_normal (vertices m' ! w) = v_normal (vertices m ! w)"
proof -
  have "vertices m' ! w = vertices m ! w \<or>
        vertices m' ! w = (vertices m ! w)\<lparr>v_neighbors := v_neighbors (vertices m' ! w)\<rparr>"
  proof (cases "w = nat v \<and> w < length (vertices m)")
    case True
    with assms show ?thesis
      unfolding sweep_frame_def by (metis nth_list_update_eq)
  next
    case False
    then consider "w \<noteq> nat v" | "w = nat v" "\<not> nat v < length (vertices m)" by blast
    then show ?thesis
    proof cases
      case 1
      with assms show ?thesis by (simp add: sweep_frame_other)
    next
      case 2
      with assms have "vertices m' = vertices m"
        unfolding sweep_frame_def by (simp add: list_update_beyond)
      then show ?thesis by simp
    qed
  qed
  then have e: "vertices m' ! w = (vertices m ! w)\<lparr>v_neighbors := v_neighbors (vertices m' ! w)\<rparr>"
    by auto
  show "v_halfedge (vertices m' ! w) = v_halfedge (vertices m ! w)"
    by (subst e) simp
  show "v_position (vertices m' ! w) = v_position (vertices m ! w)"
    by (subst e) simp
  show "v_valence (vertices m' ! w) = v_valence (vertices m ! w)"
    by (subst e) simp
  show "v_normal (vertices m' ! w) = v_normal (vertices m ! w)"
    by (subst e) simp
qed

lemma vertex_step_cases:
  assumes "vertex_step N v m = Inr m'"
  obtains (sentinel) "v = -1" "m' = m"
  | (skipped) "v \<noteq> -1" "ring_walk N v m = Inr (Skipped m')"
  | (swept) st where "v \<noteq> -1" "ring_walk N v m = Inr (Swept st)" "m' = finish v st"
  using assms unfolding vertex_step_def
  by (auto split: if_splits sum.splits walk.splits)

lemma ring_walk_in_range: "ring_walk N v m = Inr w \<Longrightarrow> in_range (vertices m) v"
  by (erule ring_walk_cases)

lemma vertex_step_others:
  assumes "vertex_step N v m = Inr m'"
  shows "length (vertices m') = length (vertices m)"
    and "w \<noteq> nat v \<Longrightarrow> vertices m' ! w = vertices m ! w"
    and "v_halfedge (vertices m' ! w) = v_halfedge (vertices m ! w)"
    and "v_position (vertices m' ! w) = v_position (vertices m ! w)"
proof -
  have "length (vertices m') = length (vertices m) \<and>
        (w \<noteq> nat v \<longrightarrow> vertices m' ! w = vertices m ! w) \<and>
        v_halfedge (vertices m' ! w) = v_halfedge (vertices m ! w) \<and>
        v_position (vertices m' ! w) = v_position (vertices m ! w)"
    using assms
  proof (cases rule: vertex_step_cases)
    case sentinel
    then show ?thesis by simp
  next
    case skipped
    from ring_walk_frame[OF skipped(2)] have "sweep_frame v m m'" by simp
    then show ?thesis
      by (simp add: sweep_frame_length sweep_frame_other sweep_frame_same)
  next
    case (swept st)
    from ring_walk_frame[OF swept(2)] have f: "sweep_frame v m (sw_mesh st)" by simp
    have l: "length (vertices m') = length (vertices (sw_mesh st))"
      using swept(3) by (simp add: finish_def Let_def)
    have o: "w \<noteq> nat v \<Longrightarrow> vertices m' ! w = vertices (sw_mesh st) ! w"
      using swept(3) by (simp add: finish_def Let_def)
    have h: "v_halfedge (vertices m' ! w) = v_halfedge (vertices (sw_mesh st) ! w)"
      "v_position (vertices m' ! w) = v_position (vertices (sw_mesh st) ! w)"
      using swept(3)
      by (cases "w = nat v \<and> w < length (vertices (sw_mesh st))";
          auto simp: finish_def Let_def nth_list_update list_update_beyond)+
    from l o h f show ?thesis
      by (simp add: sweep_frame_length sweep_frame_other sweep_frame_same)
  qed
  then show "length (vertices m') = length (vertices m)"
    and "w \<noteq> nat v \<Longrightarrow> vertices m' ! w = vertices m ! w"
    and "v_halfedge (vertices m' ! w) = v_halfedge (vertices m ! w)"
    and "v_position (vertices m' ! w) = v_position (vertices m ! w)"
    by simp_all
qed

lemma vertex_step_isolated:
  "in_range (vertices m) u \<Longrightarrow> v_halfedge (vertices m ! nat u) = -1 \<Longrightarrow> vertex_step N u m = Inr m"
  by (simp add: vertex_step_def ring_walk_def deref_in_range)

lemma vertex_step_keeps_isolated:
  assumes u: "in_range (vertices m) u" "v_halfedge (vertices m ! nat u) = -1"
    and s: "vertex_step N v m = Inr m'"
  shows "vertices m' ! nat u = vertices m ! nat u"
proof (cases "nat v = nat u")
  case False
  with vertex_step_others(2)[OF s, of "nat u"] show ?thesis by simp
next
  case True
  show ?thesis
  proof (cases "v = -1")
    case True
    with s show ?thesis by (simp add: vertex_step_def)
  next
    case False
    with s have "in_range (vertices m) v"
      by (auto elim!: vertex_step_cases dest: ring_walk_in_range)
    with u(1) \<open>nat v = nat u\<close> have "v = u"
      unfolding in_range_def by arith
    with u s vertex_step_isolated[OF u, of N] show ?thesis by simp
  qed
qed

lemma update_vertex_neighbors_keeps_isolated:
  "in_range (vertices m) u \<Longrightarrow> v_halfedge (vertices m ! nat u) = -1 \<Longrightarrow>
   update_vertex_neighbors N v_idxs m = Inr m' \<Longrightarrow> vertices m' ! nat u = vertices m ! nat u"
proof (induction v_idxs arbitrary: m)
  case Nil
  then show ?case by simp
next
  case (Cons v v_idxs)
  from Cons.prems(3) obtain m1 where
    s: "vertex_step N v m = Inr m1" and r: "update_vertex_neighbors N v_idxs m1 = Inr m'"
    by (auto split: sum.splits)
  have k: "vertices m1 ! nat u = vertices m ! nat u"
    using vertex_step_keeps_isolated[OF Cons.prems(1,2) s] .
  have "in_range (vertices m1) u"
    using Cons.prems(1) vertex_step_others(1)[OF s] by (simp add: in_range_def)
  moreover have "v_halfedge (vertices m1 ! nat u) = -1"
    using k Cons.prems(2) by simp
  ultimately have "vertices m' ! nat u = vertices m1 ! nat u"
    using r by (rule Cons.IH)
  with k show ?case by simp
qed

lemma face_step_vertices: "face_step f m = Inr m' \<Longrightarrow> vertices m' = vertices m \<and> halfedges m' = halfedges m"
  unfolding face_step_def
  by (auto simp: Let_def split: if_splits sum.splits)

lemma update_face_normals_vertices:
  "update_face_normals f_idxs m = Inr m' \<Longrightarrow> vertices m' = vertices m \<and> halfedges m' = halfedges m"
proof (induction f_idxs arbitrary: m)
  case Nil
  then show ?case by simp
next
  case (Cons f f_idxs)
  then show ?case
    by (auto split: sum.splits dest!: face_step_vertices)
qed

section \<open>Isolated vertices\<close>

text \<open>
  Claim C9. A vertex whose anchor \<^verbatim>\<open>halfedge\<close> is the sentinel is left exactly as it was:
  \<^verbatim>\<open>update_vertex_neighbors\<close> on that vertex alone returns the mesh unchanged, any batch of
  \<^verbatim>\<open>update_vertex_neighbors\<close> that returns leaves the vertex's record (and with it
  \<^verbatim>\<open>neighbors\<close>, \<^verbatim>\<open>valence\<close> and \<^verbatim>\<open>normal\<close>) unchanged, and so does any batch of
  \<^verbatim>\<open>update_face_normals\<close>, which writes no vertex at all.
\<close>

theorem isolated_vertex_untouched:
  assumes "in_range (vertices m) u" and "v_halfedge (vertices m ! nat u) = -1"
  shows "update_vertex_neighbors N [u] m = Inr m \<and>
         (\<forall>v_idxs m'. update_vertex_neighbors N v_idxs m = Inr m' \<longrightarrow>
            vertices m' ! nat u = vertices m ! nat u) \<and>
         (\<forall>f_idxs m'. update_face_normals f_idxs m = Inr m' \<longrightarrow>
            vertices m' ! nat u = vertices m ! nat u)"
  using assms
  by (auto simp: vertex_step_isolated update_vertex_neighbors_keeps_isolated
           dest: update_face_normals_vertices)

text \<open>The equations that evaluate the kernels on a concrete mesh.\<close>

lemmas eval_defs = vertex_step_def ring_walk_def boundary_fallback_def finish_def visit_def
  accumulate_def edge_length_def set_length_def set_neighbors_def deref_def add_scaled_def
  vsub_def norm3_def normalized_def Let_def forward_sweep.simps reverse_sweep.simps
  swap_down.simps INT_MAX_def face_step_def cross_def

lemma triangle_and_point_sel:
  "halfedges triangle_and_point =
     [\<lparr>he_vertex = 2, he_face = 0, he_twin = -1, he_next = 1, he_prev = 2, he_length = 0\<rparr>,
      \<lparr>he_vertex = 1, he_face = 0, he_twin = -1, he_next = 2, he_prev = 0, he_length = 0\<rparr>,
      \<lparr>he_vertex = 0, he_face = 0, he_twin = -1, he_next = 0, he_prev = 1, he_length = 0\<rparr>]"
  "vertices triangle_and_point =
     [\<lparr>v_position = (0, 0, 0), v_normal = (0, 0, 0), v_halfedge = 0, v_valence = 0,
       v_neighbors = replicate 4 (-1)\<rparr>,
      \<lparr>v_position = (1, 0, 0), v_normal = (0, 0, 0), v_halfedge = 2, v_valence = 0,
       v_neighbors = replicate 4 (-1)\<rparr>,
      \<lparr>v_position = (0, 1, 0), v_normal = (0, 0, 0), v_halfedge = 1, v_valence = 0,
       v_neighbors = replicate 4 (-1)\<rparr>,
      \<lparr>v_position = (5, 5, 5), v_normal = (1, 0, 0), v_halfedge = -1, v_valence = 7,
       v_neighbors = [8, 9, 8, 9]\<rparr>]"
  "faces triangle_and_point = [\<lparr>f_halfedge = 0, f_normal = (0, 0, 0), f_area = 0\<rparr>]"
  by (simp_all add: triangle_and_point_def single_triangle_def)

lemma triangle_and_point_run:
  "\<exists>m'. update_vertex_neighbors 4 [3, 0, 3] triangle_and_point = Inr m'"
  by (simp add: eval_defs triangle_and_point_def single_triangle_def)

text \<open>The theorem at the isolated vertex 3, in batches that also walk around vertex 0.\<close>

theorem isolated_vertex_untouched_witness:
  "in_range (vertices triangle_and_point) 3 \<and>
   v_halfedge (vertices triangle_and_point ! nat 3) = -1 \<and>
   update_vertex_neighbors 4 [3] triangle_and_point = Inr triangle_and_point \<and>
   vertices (projr (update_vertex_neighbors 4 [3, 0, 3] triangle_and_point)) ! 3 =
     \<lparr>v_position = (5, 5, 5), v_normal = (1, 0, 0), v_halfedge = -1, v_valence = 7,
      v_neighbors = [8, 9, 8, 9]\<rparr> \<and>
   vertices (projr (update_face_normals [0] triangle_and_point)) ! 3 =
     \<lparr>v_position = (5, 5, 5), v_normal = (1, 0, 0), v_halfedge = -1, v_valence = 7,
      v_neighbors = [8, 9, 8, 9]\<rparr>"
proof -
  have r: "in_range (vertices triangle_and_point) 3"
    and h: "v_halfedge (vertices triangle_and_point ! nat 3) = -1"
    by (simp_all add: triangle_and_point_sel in_range_def)
  note t = isolated_vertex_untouched[OF r h]
  obtain m1 where m1: "update_vertex_neighbors 4 [3, 0, 3] triangle_and_point = Inr m1"
    using triangle_and_point_run by blast
  have "\<exists>m2. update_face_normals [0] triangle_and_point = Inr m2"
    by (simp add: eval_defs triangle_and_point_def single_triangle_def)
  then obtain m2 where m2: "update_face_normals [0] triangle_and_point = Inr m2"
    by blast
  from t[of 4] m1 have "vertices m1 ! nat 3 = vertices triangle_and_point ! nat 3"
    by blast
  moreover from t[of 4] m2 have "vertices m2 ! nat 3 = vertices triangle_and_point ! nat 3"
    by blast
  ultimately show ?thesis
    using r h t[of 4] m1 m2 by (simp add: triangle_and_point_sel)
qed

lemma sweep_frame_halfedges:
  assumes "sweep_frame v m m'"
  shows "length (halfedges m') = length (halfedges m)"
    and "i < length (halfedges m) \<Longrightarrow> he_twin (halfedges m' ! i) = he_twin (halfedges m ! i)"
    and "i < length (halfedges m) \<Longrightarrow> he_next (halfedges m' ! i) = he_next (halfedges m ! i)"
    and "i < length (halfedges m) \<Longrightarrow> he_prev (halfedges m' ! i) = he_prev (halfedges m ! i)"
    and "i < length (halfedges m) \<Longrightarrow> he_vertex (halfedges m' ! i) = he_vertex (halfedges m ! i)"
    and "i < length (halfedges m) \<Longrightarrow> he_face (halfedges m' ! i) = he_face (halfedges m ! i)"
proof -
  from assms have e: "map unlength (halfedges m') = map unlength (halfedges m)"
    by (simp add: sweep_frame_def)
  then show l: "length (halfedges m') = length (halfedges m)"
    by (metis length_map)
  assume "i < length (halfedges m)"
  with e l have u: "unlength (halfedges m' ! i) = unlength (halfedges m ! i)"
    by (metis nth_map)
  have "he_twin (unlength (halfedges m' ! i)) = he_twin (unlength (halfedges m ! i))"
       "he_next (unlength (halfedges m' ! i)) = he_next (unlength (halfedges m ! i))"
       "he_prev (unlength (halfedges m' ! i)) = he_prev (unlength (halfedges m ! i))"
       "he_vertex (unlength (halfedges m' ! i)) = he_vertex (unlength (halfedges m ! i))"
       "he_face (unlength (halfedges m' ! i)) = he_face (unlength (halfedges m ! i))"
    by (simp_all only: u)
  then show "he_twin (halfedges m' ! i) = he_twin (halfedges m ! i)"
    and "he_next (halfedges m' ! i) = he_next (halfedges m ! i)"
    and "he_prev (halfedges m' ! i) = he_prev (halfedges m ! i)"
    and "he_vertex (halfedges m' ! i) = he_vertex (halfedges m ! i)"
    and "he_face (halfedges m' ! i) = he_face (halfedges m ! i)"
    by (simp_all add: unlength_def)
qed

lemma sweep_frame_faces: "sweep_frame v m m' \<Longrightarrow> faces m' = faces m"
  by (simp add: sweep_frame_def)

lemma in_range_nat: "in_range xs i \<Longrightarrow> nat i < length xs"
  unfolding in_range_def by arith

lemma in_range_frame:
  assumes "sweep_frame v m m'"
  shows "in_range (halfedges m') i = in_range (halfedges m) i"
    and "in_range (vertices m') i = in_range (vertices m) i"
    and "in_range (faces m') i = in_range (faces m) i"
  using sweep_frame_halfedges(1)[OF assms] sweep_frame_length[OF assms] sweep_frame_faces[OF assms]
  by (simp_all add: in_range_def)

lemma set_length_result:
  "in_range (halfedges ms) t \<Longrightarrow>
   set_length t l ms = Inr (ms\<lparr>halfedges := (halfedges ms)[nat t := (halfedges ms ! nat t)\<lparr>he_length := l\<rparr>]\<rparr>)"
  by (simp add: set_length_def deref_in_range)

lemma visit_result:
  assumes fr: "sweep_frame v m ms"
    and v: "in_range (vertices m) v"
    and e: "in_range (halfedges m) e"
           "i < int N \<Longrightarrow> in_range (faces m) (he_face (halfedges m ! nat e))"
           "in_range (vertices m) (he_vertex (halfedges m ! nat e))"
    and nb: "nb = (if i < int N then (v_neighbors (vertices ms ! nat v))[nat i := e]
                   else v_neighbors (vertices ms ! nat v))"
  shows "visit N v e i ms normal =
           Inr ((set_neighbors v nb ms)\<lparr>halfedges := (halfedges ms)[nat e :=
                   (halfedges ms ! nat e)\<lparr>he_length := edge_dist m v e\<rparr>]\<rparr>,
                if i < int N then weigh m normal e else normal,
                edge_dist m v e)"
proof -
  let ?m1 = "set_neighbors v nb ms"
  have acc: "accumulate N v e i ms normal = Inr (?m1, if i < int N then weigh m normal e else normal)"
  proof (cases "i < int N")
    case True
    have "deref (vertices ms) v = Inr (vertices ms ! nat v)"
      using v in_range_frame(2)[OF fr] by (simp add: deref_in_range)
    moreover have "deref (halfedges ?m1) e = Inr (halfedges ms ! nat e)"
      using e(1) in_range_frame(1)[OF fr] by (simp add: deref_in_range set_neighbors_def)
    moreover have "he_face (halfedges ms ! nat e) = he_face (halfedges m ! nat e)"
      using sweep_frame_halfedges(6)[OF fr] in_range_nat[OF e(1)] by simp
    moreover have "deref (faces ?m1) (he_face (halfedges m ! nat e)) =
        Inr (faces m ! nat (he_face (halfedges m ! nat e)))"
      using e(2)[OF True] sweep_frame_faces[OF fr] by (simp add: deref_in_range set_neighbors_def)
    ultimately show ?thesis
      using True nb by (simp add: accumulate_def Let_def weigh_def)
  next
    case False
    have "?m1 = ms"
    proof -
      have "(vertices ms)[nat v := (vertices ms ! nat v)\<lparr>v_neighbors := v_neighbors (vertices ms ! nat v)\<rparr>] = vertices ms"
        by (simp add: list_update_same_conv[THEN iffD2])
      with False nb show ?thesis by (simp add: set_neighbors_def)
    qed
    with False show ?thesis by (simp add: accumulate_def)
  qed
  have f1: "sweep_frame v m ?m1"
    using fr set_neighbors_frame by (rule sweep_frame_trans)
  have el: "edge_length v e ?m1 = Inr (edge_dist m v e)"
  proof -
    have "deref (halfedges ?m1) e = Inr (halfedges ?m1 ! nat e)"
      using e(1) in_range_frame(1)[OF f1] by (simp add: deref_in_range)
    moreover have hv: "he_vertex (halfedges ?m1 ! nat e) = he_vertex (halfedges m ! nat e)"
      using sweep_frame_halfedges(5)[OF f1] in_range_nat[OF e(1)] by simp
    moreover have "deref (vertices ?m1) (he_vertex (halfedges m ! nat e)) =
       Inr (vertices ?m1 ! nat (he_vertex (halfedges m ! nat e)))"
      using e(3) in_range_frame(2)[OF f1] by (simp add: deref_in_range)
    moreover have "deref (vertices ?m1) v = Inr (vertices ?m1 ! nat v)"
      using v in_range_frame(2)[OF f1] by (simp add: deref_in_range)
    ultimately show ?thesis
      by (simp add: edge_length_def edge_dist_def corner_def sweep_frame_same(2)[OF f1])
  qed
  have sl: "set_length e (edge_dist m v e) ?m1 =
      Inr (?m1\<lparr>halfedges := (halfedges ?m1)[nat e := (halfedges ?m1 ! nat e)\<lparr>he_length := edge_dist m v e\<rparr>]\<rparr>)"
    using e(1) in_range_frame(1)[OF f1] by (simp add: set_length_result)
  have "halfedges ?m1 = halfedges ms"
    by (simp add: set_neighbors_def)
  with acc el sl show ?thesis
    by (simp add: visit_def)
qed

lemma closed_ring_nth_ok:
  "closed_ring m v es \<Longrightarrow> j < length es \<Longrightarrow> ring_edge_ok m (es ! j)"
  by (simp add: closed_ring_def list_all_length)

lemma closed_ring_nth_step:
  assumes "closed_ring m v es" and "j < length es"
  shows "ring_step m (es ! j) = es ! (Suc j mod length es)"
proof -
  from assms(1) have "map (ring_step m) es ! j = rotate1 es ! j"
    by (simp add: closed_ring_def)
  with assms(2) show ?thesis
    by (simp add: nth_rotate1)
qed

lemma closed_ring_not_anchor:
  assumes "closed_ring m v es" and "0 < j" and "j < length es"
  shows "es ! j \<noteq> hd es"
proof -
  from assms(1) have "list_all (\<lambda>e. e \<noteq> hd es) (tl es)"
    unfolding closed_ring_def by blast
  moreover from assms(2,3) have "j - 1 < length (tl es)" by simp
  ultimately have "tl es ! (j - 1) \<noteq> hd es"
    by (simp add: list_all_length)
  moreover from assms(2,3) have "tl es ! (j - 1) = es ! j"
    by (simp add: nth_tl)
  ultimately show ?thesis by simp
qed

lemma closed_ring_hd: "closed_ring m v es \<Longrightarrow> hd es = es ! 0"
  unfolding closed_ring_def by (metis hd_conv_nth)

lemma closed_ring_cycle:
  assumes cr: "closed_ring m v es"
  shows "es ! (Suc j mod length es) = ring_step m (es ! (j mod length es))"
proof -
  from cr have k: "0 < length es" by (simp add: closed_ring_def)
  then have "j mod length es < length es" by simp
  from closed_ring_nth_step[OF cr this] show ?thesis
    by (simp add: mod_Suc_eq)
qed

lemma closed_ring_shift:
  assumes cr: "closed_ring m v es"
    and eq: "es ! (a mod length es) = es ! (b mod length es)"
  shows "es ! ((a + t) mod length es) = es ! ((b + t) mod length es)"
proof (induction t)
  case 0
  from eq show ?case by simp
next
  case (Suc t)
  have "es ! (Suc (a + t) mod length es) = ring_step m (es ! ((a + t) mod length es))"
    by (rule closed_ring_cycle[OF cr])
  also have "\<dots> = ring_step m (es ! ((b + t) mod length es))"
    by (simp only: Suc.IH)
  also have "\<dots> = es ! (Suc (b + t) mod length es)"
    by (rule closed_ring_cycle[OF cr, symmetric])
  finally show ?case by simp
qed

lemma closed_ring_distinct:
  assumes cr: "closed_ring m v es"
  shows "distinct es"
proof -
  have "es ! a \<noteq> es ! b" if ab: "a < b" "b < length es" for a b
  proof
    assume "es ! a = es ! b"
    with ab have "es ! (a mod length es) = es ! (b mod length es)" by simp
    from closed_ring_shift[OF cr this, of "length es - b"] ab
    have "es ! (a + (length es - b)) = es ! 0" by simp
    moreover have "0 < a + (length es - b)" "a + (length es - b) < length es"
      using ab by simp_all
    ultimately show False
      using closed_ring_not_anchor[OF cr, of "a + (length es - b)"] closed_ring_hd[OF cr]
      by simp
  qed
  then have "es ! a \<noteq> es ! b" if "a < length es" "b < length es" "a \<noteq> b" for a b
    using that by (metis linorder_neqE_nat)
  then show ?thesis
    by (simp add: distinct_conv_nth)
qed

lemma closed_ring_length:
  assumes cr: "closed_ring m v es"
  shows "int (length es) \<le> INT_MAX"
proof -
  have "nat ` set es \<subseteq> {..<length (halfedges m)}"
  proof
    fix x assume "x \<in> nat ` set es"
    then obtain j where "j < length es" "x = nat (es ! j)"
      by (auto simp: in_set_conv_nth)
    with closed_ring_nth_ok[OF cr] show "x \<in> {..<length (halfedges m)}"
      by (simp add: ring_edge_ok_def in_range_nat)
  qed
  then have "card (nat ` set es) \<le> length (halfedges m)"
    by (metis card_lessThan card_mono finite_lessThan)
  moreover have "inj_on nat (set es)"
  proof (rule inj_onI)
    fix x y assume "x \<in> set es" "y \<in> set es" "nat x = nat y"
    then obtain a b where "a < length es" "x = es ! a" "b < length es" "y = es ! b"
      by (auto simp: in_set_conv_nth)
    with closed_ring_nth_ok[OF cr] have "0 \<le> x" "0 \<le> y"
      by (simp_all add: ring_edge_ok_def in_range_def)
    with \<open>nat x = nat y\<close> show "x = y"
      by arith
  qed
  then have "card (nat ` set es) = card (set es)"
    by (rule card_image)
  moreover have "card (set es) = length es"
    using closed_ring_distinct[OF cr] by (rule distinct_card)
  moreover from cr have "int (length (halfedges m)) \<le> INT_MAX"
    by (simp add: closed_ring_def)
  ultimately show ?thesis by simp
qed

lemma record_slot:
  assumes "j < length es" and "j < N"
  shows "(take j es @ replicate (N - j) x)[j := es ! j] = take (Suc j) es @ replicate (N - Suc j) x"
proof -
  from assms(2) have r: "replicate (N - j) x = x # replicate (N - Suc j) x"
    by (metis Suc_diff_Suc replicate_Suc)
  have "(take j es @ replicate (N - j) x)[j := es ! j] = take j es @ (replicate (N - j) x)[0 := es ! j]"
    using assms(1) by (simp add: list_update_append)
  also have "\<dots> = take j es @ es ! j # replicate (N - Suc j) x"
    by (simp add: r)
  also have "\<dots> = take (Suc j) es @ replicate (N - Suc j) x"
    using assms(1) by (simp add: take_Suc_conv_app_nth)
  finally show ?thesis .
qed

lemma in_range_nat_inj: "in_range xs a \<Longrightarrow> in_range ys b \<Longrightarrow> nat a = nat b \<Longrightarrow> a = b"
  unfolding in_range_def by arith

lemma ring_twins_okD:
  assumes "ring_twins_ok m v es" and "x \<in> set es"
  shows "he_twin (halfedges m ! nat (he_twin (halfedges m ! nat x))) = x"
    and "he_vertex (halfedges m ! nat (he_twin (halfedges m ! nat x))) = v"
    and "he_vertex (halfedges m ! nat x) \<noteq> v"
  using assms by (simp_all add: ring_twins_ok_def list_all_iff)

lemma ring_inv_advance:
  assumes cr: "closed_ring m v es" and inv: "ring_inv N m v es j st" and j: "j < length es"
  shows "\<exists>st1. ring_inv N m v es (Suc j) st1 \<and>
           forward_sweep N v (hd es) st =
             (if Suc j = length es then Inr st1 else forward_sweep N v (hd es) st1)"
proof -
  define ms where "ms = sw_mesh st"
  define e where "e = es ! j"
  define t where "t = he_twin (halfedges m ! nat e)"
  define c where "c = es ! (Suc j mod length es)"
  define d where "d = edge_dist m v e"
  define nb where "nb = (if int j < int N then (v_neighbors (vertices ms ! nat v))[nat (int j) := e]
                        else v_neighbors (vertices ms ! nat v))"
  define normal' where "normal' = (if int j < int N then weigh m (sw_normal st) e else sw_normal st)"
  define m2 where "m2 = (set_neighbors v nb ms)\<lparr>halfedges := (halfedges ms)[nat e :=
                   (halfedges ms ! nat e)\<lparr>he_length := d\<rparr>]\<rparr>"
  define m3 where "m3 = m2\<lparr>halfedges := (halfedges m2)[nat t := (halfedges m2 ! nat t)\<lparr>he_length := d\<rparr>]\<rparr>"
  define st1 where "st1 = \<lparr>sw_mesh = m3, curr_idx = c, twin_idx = he_twin (halfedges m ! nat c),
                           sw_i = int j + 1, sw_normal = normal'\<rparr>"
  from j have jm: "j mod length es = j" by simp
  from inv jm have fr: "sweep_frame v m ms"
    and cur: "curr_idx st = e"
    and tw: "twin_idx st = t"
    and i: "sw_i st = int j"
    and nb0: "v_neighbors (vertices ms ! nat v) = take (min j N) es @ replicate (N - min j N) (-1)"
    and nrm0: "sw_normal st = foldl (weigh m) (0, 0, 0) (take (min j N) es)"
    and len0: "ring_twins_ok m v es \<longrightarrow> list_all (edge_measured m v ms) (take j es)"
    by (simp_all add: ring_inv_def ms_def e_def t_def)
  from cr have v: "in_range (vertices m) v"
    by (simp add: closed_ring_def)
  from closed_ring_nth_ok[OF cr j] have
    e1: "in_range (halfedges m) e" and t1: "t \<noteq> -1" and t2: "in_range (halfedges m) t"
    and e3: "in_range (vertices m) (he_vertex (halfedges m ! nat e))"
    and e4: "in_range (faces m) (he_face (halfedges m ! nat e))"
    by (simp_all add: ring_edge_ok_def e_def t_def)
  have k0: "0 < length es"
    using j by arith
  have cj: "Suc j mod length es < length es"
    using k0 by (rule mod_less_divisor)
  from closed_ring_nth_ok[OF cr cj] have c1: "in_range (halfedges m) c"
    by (simp add: ring_edge_ok_def c_def)
  have vi: "visit N v e (int j) ms (sw_normal st) = Inr (m2, normal', d)"
    unfolding m2_def normal'_def d_def
    by (rule visit_result[OF fr v e1 e4 e3 nb_def])
  have f2: "sweep_frame v m m2"
    using fr visit_frame[OF vi] by (rule sweep_frame_trans)
  have s3: "set_length t d m2 = Inr m3"
    unfolding m3_def using t2 in_range_frame(1)[OF f2] by (simp add: set_length_result)
  have f3: "sweep_frame v m m3"
    using f2 set_length_frame[OF s3] by (rule sweep_frame_trans)
  have d1: "deref (halfedges m3) t = Inr (halfedges m3 ! nat t)"
    using t2 in_range_frame(1)[OF f3] by (simp add: deref_in_range)
  have nx: "he_next (halfedges m3 ! nat t) = c"
  proof -
    have "he_next (halfedges m3 ! nat t) = he_next (halfedges m ! nat t)"
      using sweep_frame_halfedges(3)[OF f3] in_range_nat[OF t2] by simp
    also have "\<dots> = ring_step m e"
      by (simp add: ring_step_def t_def)
    also have "\<dots> = c"
      unfolding e_def c_def by (rule closed_ring_nth_step[OF cr j])
    finally show ?thesis .
  qed
  have d2: "deref (halfedges m3) c = Inr (halfedges m3 ! nat c)"
    using c1 in_range_frame(1)[OF f3] by (simp add: deref_in_range)
  have tc: "he_twin (halfedges m3 ! nat c) = he_twin (halfedges m ! nat c)"
    using sweep_frame_halfedges(2)[OF f3] in_range_nat[OF c1] by simp
  have ov: "\<not> INT_MAX \<le> int j"
    using closed_ring_length[OF cr] j by simp
  have e_ne: "e \<noteq> -1"
    using e1 by (auto simp: in_range_def)
  have corig: "c = hd es \<longleftrightarrow> Suc j = length es"
  proof (cases "Suc j = length es")
    case True
    then show ?thesis
      using closed_ring_hd[OF cr] by (simp add: c_def)
  next
    case False
    with j have "Suc j < length es" by simp
    with closed_ring_not_anchor[OF cr, of "Suc j"] False show ?thesis
      by (simp add: c_def)
  qed
  have unfold: "forward_sweep N v (hd es) st =
      (if Suc j = length es then Inr st1 else forward_sweep N v (hd es) st1)"
    by (subst forward_sweep.simps)
       (simp add: cur tw i e_ne t1 vi[unfolded ms_def] s3 d1 nx d2 tc ov corig st1_def)
  have vlt: "nat v < length (vertices ms)"
    using v in_range_frame(2)[OF fr] by (simp add: in_range_nat)
  have nb3: "v_neighbors (vertices m3 ! nat v) = nb"
    using vlt by (simp add: m3_def m2_def set_neighbors_def)
  have nb': "nb = take (min (Suc j) N) es @ replicate (N - min (Suc j) N) (-1)"
  proof (cases "j < N")
    case True
    then have "min j N = j" "min (Suc j) N = Suc j" by simp_all
    with True nb0 record_slot[OF j True, of "-1"] show ?thesis
      by (simp add: nb_def e_def)
  next
    case False
    then have "min j N = N" "min (Suc j) N = N" by simp_all
    with False nb0 show ?thesis
      by (simp add: nb_def)
  qed
  have nrm': "normal' = foldl (weigh m) (0, 0, 0) (take (min (Suc j) N) es)"
  proof (cases "j < N")
    case True
    then have "min j N = j" "min (Suc j) N = Suc j" by simp_all
    with True nrm0 j show ?thesis
      by (simp add: normal'_def e_def take_Suc_conv_app_nth)
  next
    case False
    then have "min j N = N" "min (Suc j) N = N" by simp_all
    with False nrm0 show ?thesis
      by (simp add: normal'_def)
  qed
  have hl: "length (halfedges ms) = length (halfedges m)"
    by (rule sweep_frame_halfedges(1)[OF fr])
  have len3: "he_length (halfedges m3 ! x) =
      (if x = nat t \<or> x = nat e then d else he_length (halfedges ms ! x))"
    if "x < length (halfedges m)" for x
    using that hl in_range_nat[OF e1] in_range_nat[OF t2]
    by (simp add: m3_def m2_def set_neighbors_def nth_list_update)
  have len': "list_all (edge_measured m v m3) (take (Suc j) es)" if tok: "ring_twins_ok m v es"
  proof -
    have ein: "e \<in> set es"
      using j by (simp add: e_def)
    note te = ring_twins_okD[OF tok ein, folded t_def]
    have new: "edge_measured m v m3 e"
      using len3[OF in_range_nat[OF e1]] len3[OF in_range_nat[OF t2]]
      by (simp add: edge_measured_def d_def t_def)
    have old: "edge_measured m v m3 x" if x: "x \<in> set (take j es)" for x
    proof -
      from x obtain j' where j': "j' < j" "x = es ! j'"
        by (auto simp: in_set_conv_nth)
      with j have xin: "x \<in> set es" by simp
      note tx = ring_twins_okD[OF tok xin]
      define y where "y = he_twin (halfedges m ! nat x)"
      from j' j closed_ring_nth_ok[OF cr, of j'] have
        x1: "in_range (halfedges m) x" and y1: "in_range (halfedges m) y"
        by (simp_all add: ring_edge_ok_def y_def)
      have "x \<noteq> e"
        using closed_ring_distinct[OF cr] j j' by (simp add: e_def nth_eq_iff_index_eq)
      moreover have "x \<noteq> t" using te(2) tx(3) by auto
      moreover have "y \<noteq> e" using tx(2) te(3) by (auto simp: y_def)
      moreover have "y \<noteq> t" using tx(1) te(1) \<open>x \<noteq> e\<close> by (auto simp: y_def)
      ultimately have n: "nat x \<noteq> nat e" "nat x \<noteq> nat t" "nat y \<noteq> nat e" "nat y \<noteq> nat t"
        using in_range_nat_inj x1 y1 e1 t2 by blast+
      from len0 tok x have "edge_measured m v ms x"
        by (simp add: list_all_iff)
      with n len3[OF in_range_nat[OF x1]] len3[OF in_range_nat[OF y1]] show ?thesis
        by (simp add: edge_measured_def y_def)
    qed
    from j have "take (Suc j) es = take j es @ [e]"
      by (simp add: take_Suc_conv_app_nth e_def)
    with new old show ?thesis
      by (simp add: list_all_iff)
  qed
  have "ring_inv N m v es (Suc j) st1"
    unfolding ring_inv_def
    using f3 nb3 nb' nrm' len' by (simp add: st1_def c_def)
  with unfold show ?thesis by blast
qed

lemma ring_inv_run:
  assumes cr: "closed_ring m v es"
  shows "ring_inv N m v es j st \<Longrightarrow> j < length es \<Longrightarrow>
         \<exists>st'. forward_sweep N v (hd es) st = Inr st' \<and> ring_inv N m v es (length es) st'"
proof (induction "length es - j" arbitrary: j st)
  case 0
  then show ?case by simp
next
  case (Suc n)
  from ring_inv_advance[OF cr Suc.prems] obtain st1 where
    inv1: "ring_inv N m v es (Suc j) st1"
    and u: "forward_sweep N v (hd es) st =
             (if Suc j = length es then Inr st1 else forward_sweep N v (hd es) st1)"
    by blast
  show ?case
  proof (cases "Suc j = length es")
    case True
    with inv1 u show ?thesis by auto
  next
    case False
    with Suc.prems(2) have lt: "Suc j < length es" by simp
    moreover from Suc.hyps(2) have "n = length es - Suc j" by simp
    ultimately obtain st' where
      "forward_sweep N v (hd es) st1 = Inr st'" "ring_inv N m v es (length es) st'"
      using Suc.hyps(1)[OF _ inv1] by blast
    with u False show ?thesis by auto
  qed
qed

lemma ring_inv_start:
  assumes cr: "closed_ring m v es"
  shows "ring_inv N m v es 0 (start_sweep N v m)"
proof -
  from cr have v: "in_range (vertices m) v" and k: "es \<noteq> []"
    and h: "v_halfedge (vertices m ! nat v) = hd es"
    by (simp_all add: closed_ring_def)
  have "v_neighbors (vertices (set_neighbors v (replicate N (-1)) m) ! nat v) = replicate N (-1)"
    using in_range_nat[OF v] by (simp add: set_neighbors_def)
  moreover have "es ! (0 mod length es) = hd es"
    using k by (simp add: hd_conv_nth)
  ultimately show ?thesis
    unfolding ring_inv_def start_sweep_def
    by (simp add: set_neighbors_frame h)
qed

lemma ring_walk_start:
  assumes "in_range (vertices m) v" and "v_halfedge (vertices m ! nat v) \<noteq> -1"
    and "in_range (halfedges m) (v_halfedge (vertices m ! nat v))"
  shows "ring_walk N v m =
     (case forward_sweep N v (v_halfedge (vertices m ! nat v)) (start_sweep N v m) of
        Inl e \<Rightarrow> Inl e
      | Inr st \<Rightarrow>
          if twin_idx st = -1 \<and> curr_idx st \<noteq> -1
          then boundary_fallback N v (v_halfedge (vertices m ! nat v)) st
          else Inr (Swept st))"
  using assms by (simp add: ring_walk_def deref_in_range start_sweep_def Let_def)

lemma closed_ring_walk:
  assumes cr: "closed_ring m v es"
  shows "\<exists>st. forward_sweep N v (hd es) (start_sweep N v m) = Inr st \<and>
              ring_inv N m v es (length es) st \<and>
              curr_idx st = hd es \<and> twin_idx st \<noteq> -1 \<and>
              ring_walk N v m = Inr (Swept st) \<and>
              vertex_step N v m = Inr (finish v st)"
proof -
  from cr have v: "in_range (vertices m) v" and k: "0 < length es"
    and h: "v_halfedge (vertices m ! nat v) = hd es"
    by (simp_all add: closed_ring_def)
  from ring_inv_run[OF cr ring_inv_start[OF cr] k] obtain st where
    run: "forward_sweep N v (hd es) (start_sweep N v m) = Inr st"
    and inv: "ring_inv N m v es (length es) st"
    by blast
  have ok0: "ring_edge_ok m (hd es)"
    using closed_ring_nth_ok[OF cr k] closed_ring_hd[OF cr] by simp
  from inv k have c: "curr_idx st = hd es"
    by (simp add: ring_inv_def hd_conv_nth)
  with inv ok0 have t: "twin_idx st \<noteq> -1"
    by (simp add: ring_inv_def ring_edge_ok_def)
  from ok0 have a: "hd es \<noteq> -1" "in_range (halfedges m) (hd es)"
    by (auto simp: ring_edge_ok_def in_range_def)
  have w: "ring_walk N v m = Inr (Swept st)"
    using ring_walk_start[of m v N] v h a run t by simp
  have "v \<noteq> -1"
    using v by (auto simp: in_range_def)
  with w have "vertex_step N v m = Inr (finish v st)"
    by (simp add: vertex_step_def)
  with run inv c t w show ?thesis by blast
qed

lemma tetrahedron_sel:
  "halfedges (tetrahedron nb0) = halfedges (tetrahedron [])"
  "faces (tetrahedron nb0) = faces (tetrahedron [])"
  "length (vertices (tetrahedron nb0)) = 4"
  "map v_halfedge (vertices (tetrahedron nb0)) = [0, 1, 2, 4]"
  by (simp_all add: tetrahedron_def)

lemma tetrahedron_ring: "closed_ring (tetrahedron nb0) 0 [0, 3, 6]"
  by (simp add: closed_ring_def tetrahedron_def in_range_def ring_edge_ok_def ring_step_def INT_MAX_def)


section \<open>Closed rings\<close>

text \<open>
  Claim C5. For a vertex whose ring is closed (every half-edge of the ring has a twin, and
  its face and the vertex it points to exist), the forward sweep returns, having come back
  to the anchor with \<^verbatim>\<open>i\<close> equal to the number of half-edges of the ring, which are distinct;
  the condition of the boundary fallback is false, so the ring walk is the forward sweep
  alone; \<^verbatim>\<open>neighbors\<close> holds the first \<^verbatim>\<open>NEIGHBORSIZE\<close> half-edges of the ring in the order
  of the walk, and the valence stored is the length of the ring.
\<close>

theorem closed_ring_forward_sweep:
  assumes "closed_ring m v es"
  shows "\<exists>st. forward_sweep N v (v_halfedge (vertices m ! nat v)) (start_sweep N v m) = Inr st \<and>
              curr_idx st = v_halfedge (vertices m ! nat v) \<and>
              sw_i st = int (length es) \<and> distinct es \<and>
              \<not> (twin_idx st = -1 \<and> curr_idx st \<noteq> -1) \<and>
              ring_walk N v m = Inr (Swept st) \<and>
              vertex_step N v m = Inr (finish v st) \<and>
              v_valence (vertices (finish v st) ! nat v) = int (length es) \<and>
              v_neighbors (vertices (finish v st) ! nat v) =
                take N es @ replicate (N - length es) (-1)"
proof -
  from assms have h: "v_halfedge (vertices m ! nat v) = hd es" and v: "in_range (vertices m) v"
    by (simp_all add: closed_ring_def)
  from closed_ring_walk[OF assms, of N] obtain st where
    run: "forward_sweep N v (hd es) (start_sweep N v m) = Inr st"
    and inv: "ring_inv N m v es (length es) st"
    and c: "curr_idx st = hd es" and t: "twin_idx st \<noteq> -1"
    and w: "ring_walk N v m = Inr (Swept st)"
    and s: "vertex_step N v m = Inr (finish v st)"
    by blast
  from inv have i: "sw_i st = int (length es)"
    and fr: "sweep_frame v m (sw_mesh st)"
    and nb: "v_neighbors (vertices (sw_mesh st) ! nat v) = take N es @ replicate (N - length es) (-1)"
    by (simp_all add: ring_inv_def min_def)
  have lt: "nat v < length (vertices (sw_mesh st))"
    using v in_range_frame(2)[OF fr] by (simp add: in_range_nat)
  then have "v_valence (vertices (finish v st) ! nat v) = sw_i st"
    and "v_neighbors (vertices (finish v st) ! nat v) = v_neighbors (vertices (sw_mesh st) ! nat v)"
    by (simp_all add: finish_def Let_def)
  with run c i t w s nb closed_ring_distinct[OF assms] show ?thesis
    unfolding h by auto
qed

text \<open>The ring of the corner \<open>O\<close> of the tetrahedron, with room for two neighbours only.\<close>

theorem closed_ring_forward_sweep_witness:
  "closed_ring (tetrahedron [9, 9]) 0 [0, 3, 6] \<and>
   v_valence (vertices (projr (vertex_step 2 0 (tetrahedron [9, 9]))) ! 0) = 3 \<and>
   v_neighbors (vertices (projr (vertex_step 2 0 (tetrahedron [9, 9]))) ! 0) = [0, 3]"
  using closed_ring_forward_sweep[OF tetrahedron_ring, of 2 "[9, 9]"] tetrahedron_ring[of "[9, 9]"]
  by auto

section \<open>The boundary fallback on an open fan\<close>

text \<open>
  Claim C1, at an input where the code departs from it. On the fan of five triangles the
  forward sweep from the anchor 3 records the half-edges 3, 6, 9, 12 in the slots 0 to 3
  and stops at the missing twin of 12 with \<^verbatim>\<open>i = 3\<close>. The loop of lines 184 to 189 then turns
  the slots 1 to 3 from 6, 9, 12 into 12, 6, 9: one pass of adjacent swaps moves the last
  entry to the front of the prefix and shifts the others up, where the comment above the
  loop, and the claim, ask for the reversed order 12, 9, 6. The reverse sweep then records
  the half-edge 0 in slot 4.
\<close>

theorem fan5_prefix_rotated:
  "map (\<lambda>k. v_neighbors (vertices (projr (update_vertex_neighbors 20 [0] (fan5 (replicate 20 (-1))))) ! 0) ! k)
       [0, 1, 2, 3, 4] = [3, 12, 6, 9, 0] \<and>
   v_valence (vertices (projr (update_vertex_neighbors 20 [0] (fan5 (replicate 20 (-1))))) ! 0) = 4 \<and>
   \<not> isl (update_vertex_neighbors 20 [0] (fan5 (replicate 20 (-1))))"
  by (simp add: eval_defs fan5_def)

text \<open>The loop alone, on a prefix of length 3: a rotation, not a reversal.\<close>

lemma swap_down_rotates: "swap_down 8 3 [a0, a1, a2, a3, x, y, z, w] = Inr [a0, a3, a1, a2, x, y, z, w]"
  by (simp add: swap_down.simps)

section \<open>The single triangle\<close>

text \<open>
  Claim C2, at the input of the claim, where the code departs from it. Before the calls the
  vertex \<open>A\<close> holds the valence 7, the normal \<open>(1,0,0)\<close> and 5 in every slot of \<^verbatim>\<open>neighbors\<close>.
  \<^verbatim>\<open>update_face_normals([0])\<close> gives the face the normal \<open>(0,0,1)\<close> and the area one half, as
  claimed. In \<^verbatim>\<open>update_vertex_neighbors([A])\<close> the forward sweep records the half-edge 0 in
  slot 0, adds the weighted normal of the face to the local \<^verbatim>\<open>normal\<close>, writes the length 1
  and stops at the missing twin. The boundary fallback then finds that the half-edge before
  the anchor has no twin and leaves by the \<^verbatim>\<open>continue\<close> of line 199, where the same test
  inside the second loop (line 233) leaves by \<^verbatim>\<open>break\<close>: lines 243 to 252 are passed over,
  and \<open>A\<close> keeps the valence 7 and the normal \<open>(1,0,0)\<close>, where the claim, and the vector
  accumulated in \<^verbatim>\<open>normal\<close>, call for the normal \<open>(0,0,1)\<close>.
\<close>

theorem single_triangle_stale:
  "\<not> isl (faces_then_vertices 20 [0] [0] (single_triangle 7 (1, 0, 0) (replicate 20 5))) \<and>
   map f_normal (faces (projr (faces_then_vertices 20 [0] [0]
      (single_triangle 7 (1, 0, 0) (replicate 20 5))))) = [(0, 0, 1)] \<and>
   map f_area (faces (projr (faces_then_vertices 20 [0] [0]
      (single_triangle 7 (1, 0, 0) (replicate 20 5))))) = [1 / 2] \<and>
   v_neighbors (vertices (projr (faces_then_vertices 20 [0] [0]
      (single_triangle 7 (1, 0, 0) (replicate 20 5)))) ! 0) = (replicate 20 (-1))[0 := 0] \<and>
   he_length (halfedges (projr (faces_then_vertices 20 [0] [0]
      (single_triangle 7 (1, 0, 0) (replicate 20 5)))) ! 0) = 1 \<and>
   v_valence (vertices (projr (faces_then_vertices 20 [0] [0]
      (single_triangle 7 (1, 0, 0) (replicate 20 5)))) ! 0) = 7 \<and>
   v_normal (vertices (projr (faces_then_vertices 20 [0] [0]
      (single_triangle 7 (1, 0, 0) (replicate 20 5)))) ! 0) = (1, 0, 0)"
  by (simp add: eval_defs single_triangle_def faces_then_vertices_def)

text \<open>
  The same two calls for every capacity \<^verbatim>\<open>NEIGHBORSIZE\<close> and every content of the derived
  fields of \<open>A\<close> before them: the valence and the normal of \<open>A\<close> are passed through.
\<close>

lemma single_triangle_run:
  "update_face_normals [0] (single_triangle val0 n0 nb0) =
     Inr ((single_triangle val0 n0 nb0)
          \<lparr>faces := [\<lparr>f_halfedge = 0, f_normal = (0, 0, 1), f_area = 1 / 2\<rparr>]\<rparr>) \<and>
   update_vertex_neighbors N [0] ((single_triangle val0 n0 nb0)
          \<lparr>faces := [\<lparr>f_halfedge = 0, f_normal = (0, 0, 1), f_area = 1 / 2\<rparr>]\<rparr>) =
     Inr \<lparr>halfedges = (halfedges (single_triangle val0 n0 nb0))
              [0 := \<lparr>he_vertex = 2, he_face = 0, he_twin = -1, he_next = 1, he_prev = 2,
                     he_length = 1\<rparr>],
          vertices = (vertices (single_triangle val0 n0 nb0))
              [0 := \<lparr>v_position = (0, 0, 0), v_normal = n0, v_halfedge = 0, v_valence = val0,
                     v_neighbors = (replicate N (-1))[0 := 0]\<rparr>],
          faces = [\<lparr>f_halfedge = 0, f_normal = (0, 0, 1), f_area = 1 / 2\<rparr>]\<rparr>"
proof (cases "N = 0")
  case True
  then show ?thesis
    by (simp add: eval_defs single_triangle_def)
next
  case False
  then show ?thesis
    by (simp add: eval_defs single_triangle_def)
qed

lemma weigh_plus: "weigh m normal e = normal + weighted m e"
  by (cases normal; cases "f_normal (faces m ! nat (he_face (halfedges m ! nat e)))")
     (simp add: weigh_def weighted_def add_scaled_def)

lemma visit_Inr_D:
  assumes vi: "visit N v e i ms normal = Inr (m2, normal', l)"
    and fr: "sweep_frame v m ms" and v: "in_range (vertices m) v"
  shows "in_range (halfedges m) e"
    and "m2 = (set_neighbors v (if i < int N then (v_neighbors (vertices ms ! nat v))[nat i := e]
                   else v_neighbors (vertices ms ! nat v)) ms)\<lparr>halfedges := (halfedges ms)[nat e :=
                   (halfedges ms ! nat e)\<lparr>he_length := edge_dist m v e\<rparr>]\<rparr>"
    and "normal' = (if i < int N then weigh m normal e else normal)"
    and "l = edge_dist m v e"
proof -
  from vi obtain m1 where
    a: "accumulate N v e i ms normal = Inr (m1, normal')"
    and el: "edge_length v e m1 = Inr l"
    unfolding visit_def by (auto split: sum.splits prod.splits)
  have f1: "sweep_frame v m m1"
    using fr accumulate_frame[OF a] by (rule sweep_frame_trans)
  from el have "in_range (halfedges m1) e"
    and "in_range (vertices m1) (he_vertex (halfedges m1 ! nat e))"
    unfolding edge_length_def by (auto simp: deref_Inr_iff in_range_def split: sum.splits)
  then have e1: "in_range (halfedges m) e"
    and e3: "in_range (vertices m) (he_vertex (halfedges m ! nat e))"
    using in_range_frame[OF f1] sweep_frame_halfedges(5)[OF f1] in_range_nat[of "halfedges m" e]
    by simp_all
  have e2: "in_range (faces m) (he_face (halfedges m ! nat e))" if "i < int N"
  proof -
    from a that have "in_range (faces ms) (he_face (halfedges ms ! nat e))"
      unfolding accumulate_def
      by (auto simp: deref_Inr_iff in_range_def set_neighbors_def Let_def split: sum.splits)
    then show ?thesis
      using in_range_frame(3)[OF fr] sweep_frame_halfedges(6)[OF fr] in_range_nat[OF e1] by simp
  qed
  note r = visit_result[OF fr v e1 e2 e3 refl, of i N normal]
  from r vi show "in_range (halfedges m) e"
    and "m2 = (set_neighbors v (if i < int N then (v_neighbors (vertices ms ! nat v))[nat i := e]
                   else v_neighbors (vertices ms ! nat v)) ms)\<lparr>halfedges := (halfedges ms)[nat e :=
                   (halfedges ms ! nat e)\<lparr>he_length := edge_dist m v e\<rparr>]\<rparr>"
    and "normal' = (if i < int N then weigh m normal e else normal)"
    and "l = edge_dist m v e"
    using e1 by simp_all
qed

lemma sum_list_upd:
  fixes xs :: "'a::ab_group_add list"
  shows "k < length xs \<Longrightarrow> sum_list (xs[k := x]) = sum_list xs + x - xs ! k"
proof (induction xs arbitrary: k)
  case Nil
  then show ?case by simp
next
  case (Cons y ys)
  then show ?case
    by (cases k) (simp_all add: algebra_simps)
qed

lemma slots_inv_mono: "slots_inv N m v ms normal k \<Longrightarrow> k \<le> k' \<Longrightarrow> slots_inv N m v ms normal k'"
  by (simp add: slots_inv_def)

lemma slots_inv_set_length:
  assumes "slots_inv N m v m2 normal k" and "set_length t l m2 = Inr m3"
  shows "slots_inv N m v m3 normal k"
proof -
  from assms(2) have "vertices m3 = vertices m2"
    by (auto simp: set_length_def split: sum.splits)
  moreover from assms have "sweep_frame v m m3"
    using set_length_frame sweep_frame_trans by (simp add: slots_inv_def) blast
  ultimately show ?thesis
    using assms(1) by (simp add: slots_inv_def)
qed

lemma slots_inv_visit:
  assumes inv: "slots_inv N m v ms normal (nat i)" and i: "0 \<le> i"
    and vi: "visit N v e i ms normal = Inr (m2, normal', l)"
    and e: "e \<noteq> -1" and v: "in_range (vertices m) v"
  shows "slots_inv N m v m2 normal' (nat i + 1)"
proof -
  define nb where "nb = v_neighbors (vertices ms ! nat v)"
  define nb2 where "nb2 = (if i < int N then nb[nat i := e] else nb)"
  from inv have fr: "sweep_frame v m ms" and len: "length nb = N"
    and sum: "normal = sum_list (map (contrib m) nb)"
    and emp: "\<And>s. nat i \<le> s \<Longrightarrow> s < N \<Longrightarrow> nb ! s = -1"
    by (simp_all add: slots_inv_def nb_def)
  note d = visit_Inr_D[OF vi fr v]
  have vlt: "nat v < length (vertices ms)"
    using v in_range_frame(2)[OF fr] by (simp add: in_range_nat)
  have nb2: "v_neighbors (vertices m2 ! nat v) = nb2"
    using vlt by (simp add: d(2) set_neighbors_def nb2_def nb_def)
  have f2: "sweep_frame v m m2"
    using fr visit_frame[OF vi] by (rule sweep_frame_trans)
  have l2: "length nb2 = N"
    using len by (simp add: nb2_def)
  have s2: "normal' = sum_list (map (contrib m) nb2)"
  proof (cases "i < int N")
    case True
    with i len have lt: "nat i < length (map (contrib m) nb)" by simp
    have "nb ! nat i = -1"
      using emp[of "nat i"] True i by simp
    then have old: "map (contrib m) nb ! nat i = (0, 0, 0)"
      using lt by (simp add: contrib_def)
    have "sum_list (map (contrib m) nb2) = sum_list ((map (contrib m) nb)[nat i := contrib m e])"
      using True by (simp add: nb2_def map_update)
    also have "\<dots> = sum_list (map (contrib m) nb) + contrib m e - map (contrib m) nb ! nat i"
      using lt by (rule sum_list_upd)
    also have "\<dots> = normal + weighted m e"
      using e by (simp add: old sum contrib_def zero_prod_def)
    finally show ?thesis
      using True by (simp add: d(3) weigh_plus)
  next
    case False
    then show ?thesis
      by (simp add: d(3) nb2_def sum)
  qed
  have e2: "nb2 ! s = -1" if "nat i + 1 \<le> s" "s < N" for s
    using that emp[of s] by (simp add: nb2_def)
  from f2 l2 s2 e2 show ?thesis
    by (simp add: slots_inv_def nb2)
qed

lemma forward_sweep_slots:
  assumes run: "forward_sweep N v orig st = Inr st'" and v: "in_range (vertices m) v"
  shows "slots_inv N m v (sw_mesh st) (sw_normal st) (nat (sw_i st)) \<Longrightarrow> 0 \<le> sw_i st \<Longrightarrow>
         slots_inv N m v (sw_mesh st') (sw_normal st') (nat (sw_i st') + 1) \<and> 0 \<le> sw_i st'"
  using run
proof (induction rule: forward_sweep_Inr_induct)
  case (sentinel st)
  then show ?case
    using slots_inv_mono by fastforce
next
  case (boundary st m2 normal l)
  from slots_inv_visit[OF boundary(4,5,2,1) v] boundary(5) show ?case by simp
next
  case (closed st m2 normal l m3 c)
  from slots_inv_visit[OF closed(12,13,2,1) v] have "slots_inv N m v m3 normal (nat (sw_i st) + 1)"
    using closed(4) by (rule slots_inv_set_length)
  then have "slots_inv N m v m3 normal (nat (sw_i st + 1) + 1)"
    by (rule slots_inv_mono) simp
  with closed(13) show ?case by simp
next
  case (step st st' st1 m2 normal l m3 c)
  from slots_inv_visit[OF step(15,16,2,1) v] have "slots_inv N m v m3 normal (nat (sw_i st) + 1)"
    using step(4) by (rule slots_inv_set_length)
  moreover have "nat (sw_i st) + 1 = nat (sw_i st + 1)"
    using step(16) by simp
  ultimately have "slots_inv N m v (sw_mesh st1) (sw_normal st1) (nat (sw_i st1))"
    by (simp add: step(12))
  moreover have "0 \<le> sw_i st1"
    using step(16) by (simp add: step(12))
  ultimately show ?case
    by (rule step(14))
qed

lemma reverse_sweep_slots:
  assumes run: "reverse_sweep N v orig st = Inr st'" and v: "in_range (vertices m) v"
  shows "slots_inv N m v (sw_mesh st) (sw_normal st) (nat (sw_i st)) \<Longrightarrow> 0 \<le> sw_i st \<Longrightarrow>
         slots_inv N m v (sw_mesh st') (sw_normal st') (nat (sw_i st') + 1) \<and> 0 \<le> sw_i st'"
  using run
proof (induction rule: reverse_sweep_Inr_induct)
  case (sentinel st)
  then show ?case
    using slots_inv_mono by fastforce
next
  case (no_prev st m2 normal l m3)
  from slots_inv_visit[OF no_prev(7,8,2,1) v] have "slots_inv N m v m3 normal (nat (sw_i st) + 1)"
    using no_prev(3) by (rule slots_inv_set_length)
  with no_prev(8) show ?case by simp
next
  case (stop st m2 normal l m3 t c)
  from slots_inv_visit[OF stop(12,13,2,1) v] have "slots_inv N m v m3 normal (nat (sw_i st) + 1)"
    using stop(3) by (rule slots_inv_set_length)
  with stop(13) show ?case by simp
next
  case (step st st' st1 m2 normal l m3 t c)
  from slots_inv_visit[OF step(17,18,2,1) v] have "slots_inv N m v m3 normal (nat (sw_i st) + 1)"
    using step(3) by (rule slots_inv_set_length)
  moreover have "nat (sw_i st) + 1 = nat (sw_i st + 1)"
    using step(18) by simp
  ultimately have "slots_inv N m v (sw_mesh st1) (sw_normal st1) (nat (sw_i st1))"
    by (simp add: step(14))
  moreover have "0 \<le> sw_i st1"
    using step(18) by (simp add: step(14))
  ultimately show ?case
    by (rule step(16))
qed

lemma swap_down_slots:
  fixes f :: "int \<Rightarrow> 'a::ab_group_add"
  shows "swap_down N k nb = Inr nb' \<Longrightarrow> length nb = N \<Longrightarrow>
         length nb' = N \<and> sum_list (map f nb') = sum_list (map f nb) \<and>
         (\<forall>s. nat k < s \<longrightarrow> nb' ! s = nb ! s)"
proof (induction N k nb rule: swap_down.induct)
  case (1 N k nb)
  show ?case
  proof (cases "k > 1")
    case False
    with "1.prems" show ?thesis
      by (simp add: swap_down.simps)
  next
    case True
    with "1.prems"(1) have kN: "k < int N"
      by (subst (asm) swap_down.simps) (auto split: if_splits)
    define a where "a = nat k"
    define b where "b = nat (k - 1)"
    define nb1 where "nb1 = nb[a := nb ! b, b := nb ! a]"
    from True kN "1.prems"(2) have ab: "a < length nb" "b < length nb" "a \<noteq> b" "b < a"
      by (simp_all add: a_def b_def)
    from True kN "1.prems"(1) have r: "swap_down N (k - 1) nb1 = Inr nb'"
      by (subst (asm) swap_down.simps) (simp add: Let_def nb1_def a_def b_def)
    have l1: "length nb1 = N"
      using "1.prems"(2) by (simp add: nb1_def)
    have "sum_list (map f nb1) = sum_list ((map f nb)[a := f (nb ! b), b := f (nb ! a)])"
      by (simp add: nb1_def map_update)
    also have "\<dots> = sum_list ((map f nb)[a := f (nb ! b)]) + f (nb ! a) - (map f nb)[a := f (nb ! b)] ! b"
      using ab by (simp add: sum_list_upd)
    also have "\<dots> = sum_list (map f nb)"
      using ab by (simp add: sum_list_upd)
    finally have s1: "sum_list (map f nb1) = sum_list (map f nb)" .
    have o1: "nb1 ! s = nb ! s" if "a < s" for s
      using that ab by (simp add: nb1_def)
    from "1.IH"[OF True kN refl r[unfolded nb1_def a_def b_def] l1[unfolded nb1_def a_def b_def]]
    have "length nb' = N" "sum_list (map f nb') = sum_list (map f nb1)"
      "\<And>s. b < s \<Longrightarrow> nb' ! s = nb1 ! s"
      by (simp_all add: nb1_def a_def b_def)
    with s1 o1 ab show ?thesis
      by (simp add: a_def)
  qed
qed

lemma boundary_fallback_slots:
  assumes run: "boundary_fallback N v orig st = Inr (Swept st')" and v: "in_range (vertices m) v"
    and inv: "slots_inv N m v (sw_mesh st) (sw_normal st) (nat (sw_i st) + 1)" and i: "0 \<le> sw_i st"
  shows "slots_inv N m v (sw_mesh st') (sw_normal st') (nat (sw_i st') + 1) \<and> 0 \<le> sw_i st'"
proof -
  define nb where "nb = v_neighbors (vertices (sw_mesh st) ! nat v)"
  from inv have fr: "sweep_frame v m (sw_mesh st)" and len: "length nb = N"
    and sum: "sw_normal st = sum_list (map (contrib m) nb)"
    and emp: "\<And>s. nat (sw_i st) + 1 \<le> s \<Longrightarrow> s < N \<Longrightarrow> nb ! s = -1"
    by (simp_all add: slots_inv_def nb_def)
  have vlt: "nat v < length (vertices (sw_mesh st))"
    using v in_range_frame(2)[OF fr] by (simp add: in_range_nat)
  from run obtain nb' where
    sd: "swap_down N (sw_i st) nb = Inr nb'"
    unfolding boundary_fallback_def nb_def
    by (auto simp: deref_Inr_iff split: sum.splits)
  define m1 where "m1 = set_neighbors v nb' (sw_mesh st)"
  define st0 where "st0 = \<lparr>sw_mesh = m1,
      curr_idx = he_twin (halfedges m1 ! nat (he_prev (halfedges m1 ! nat orig))),
      twin_idx = he_prev (halfedges m1 ! nat orig), sw_i = sw_i st + 1, sw_normal = sw_normal st\<rparr>"
  have st0: "sw_mesh st0 = m1" "sw_i st0 = sw_i st + 1" "sw_normal st0 = sw_normal st"
    by (simp_all add: st0_def)
  from run sd have rs: "reverse_sweep N v orig st0 = Inr st'"
    unfolding boundary_fallback_def nb_def[symmetric] m1_def[symmetric] st0_def
    by (auto simp: Let_def deref_Inr_iff nb_def m1_def split: sum.splits if_splits)
  from swap_down_slots[OF sd len, of "contrib m"] have
    l': "length nb' = N" and s': "sum_list (map (contrib m) nb') = sum_list (map (contrib m) nb)"
    and o': "\<And>s. nat (sw_i st) < s \<Longrightarrow> nb' ! s = nb ! s"
    by simp_all
  have nb1: "v_neighbors (vertices m1 ! nat v) = nb'"
    using vlt by (simp add: m1_def set_neighbors_def)
  have f1: "sweep_frame v m m1"
    unfolding m1_def using fr set_neighbors_frame by (rule sweep_frame_trans)
  have "slots_inv N m v m1 (sw_normal st) (nat (sw_i st) + 1)"
    using f1 l' s' sum o' emp by (simp add: slots_inv_def nb1)
  moreover have "nat (sw_i st) + 1 = nat (sw_i st0)"
    using i st0(2) by simp
  ultimately have "slots_inv N m v (sw_mesh st0) (sw_normal st0) (nat (sw_i st0))"
    by (simp add: st0)
  moreover have "0 \<le> sw_i st0"
    using i st0(2) by simp
  ultimately show ?thesis
    by (rule reverse_sweep_slots[OF rs v])
qed

lemma start_sweep_slots:
  assumes v: "in_range (vertices m) v"
  shows "slots_inv N m v (sw_mesh (start_sweep N v m)) (sw_normal (start_sweep N v m))
           (nat (sw_i (start_sweep N v m)))"
proof -
  have "v_neighbors (vertices (set_neighbors v (replicate N (-1)) m) ! nat v) = replicate N (-1)"
    using in_range_nat[OF v] by (simp add: set_neighbors_def)
  moreover have "sum_list (map (contrib m) (replicate N (-1))) = (0, 0, 0)"
    by (induction N) (simp_all add: contrib_def zero_prod_def)
  ultimately show ?thesis
    by (simp add: slots_inv_def start_sweep_def set_neighbors_frame)
qed

lemma ring_walk_slots:
  assumes w: "ring_walk N v m = Inr (Swept st)"
  shows "slots_inv N m v (sw_mesh st) (sw_normal st) (nat (sw_i st) + 1) \<and> 0 \<le> sw_i st"
  using w
proof (cases rule: ring_walk_cases)
  case isolated
  then show ?thesis by simp
next
  case (walked st0)
  note v = walked(1)
  have run: "forward_sweep N v (v_halfedge (vertices m ! nat v)) (start_sweep N v m) = Inr st0"
    using walked(4) by (simp add: start_sweep_def)
  from forward_sweep_slots[OF run v start_sweep_slots[OF v]]
  have q: "slots_inv N m v (sw_mesh st0) (sw_normal st0) (nat (sw_i st0) + 1)" "0 \<le> sw_i st0"
    by (simp_all add: start_sweep_def)
  show ?thesis
  proof (cases "twin_idx st0 = -1 \<and> curr_idx st0 \<noteq> -1")
    case True
    with walked(5) have "boundary_fallback N v (v_halfedge (vertices m ! nat v)) st0 = Inr (Swept st)"
      by simp
    from boundary_fallback_slots[OF this v q] show ?thesis by simp
  next
    case False
    with walked(5) q show ?thesis by auto
  qed
qed

lemma ring_walk_skipped:
  assumes w: "ring_walk N v m = Inr (Skipped m')"
  shows "v_halfedge (vertices m ! nat v) = -1 \<or>
         he_prev (halfedges m ! nat (v_halfedge (vertices m ! nat v))) = -1 \<or>
         he_twin (halfedges m ! nat (he_prev (halfedges m ! nat (v_halfedge (vertices m ! nat v))))) = -1"
  using w
proof (cases rule: ring_walk_cases)
  case isolated
  then show ?thesis by simp
next
  case (walked st)
  define orig where "orig = v_halfedge (vertices m ! nat v)"
  from walked(5) have bf: "boundary_fallback N v orig st = Inr (Skipped m')"
    by (auto simp: orig_def split: if_splits)
  have fr: "sweep_frame v m (sw_mesh st)"
    using forward_sweep_frame[OF walked(4)] set_neighbors_frame[of v m "replicate N (-1)"]
    by (simp add: sweep_frame_trans)
  from bf obtain nb where
    nb: "swap_down N (sw_i st) (v_neighbors (vertices (sw_mesh st) ! nat v)) = Inr nb"
    unfolding boundary_fallback_def by (auto simp: deref_Inr_iff split: sum.splits)
  define m1 where "m1 = set_neighbors v nb (sw_mesh st)"
  have f1: "sweep_frame v m m1"
    unfolding m1_def using fr set_neighbors_frame by (rule sweep_frame_trans)
  define t where "t = he_prev (halfedges m1 ! nat orig)"
  have o: "nat orig < length (halfedges m)"
    using walked(3) by (simp add: in_range_nat orig_def)
  have t_eq: "t = he_prev (halfedges m ! nat orig)"
    unfolding t_def using sweep_frame_halfedges(4)[OF f1 o] .
  from bf nb have "t = -1 \<or> (in_range (halfedges m1) t \<and> he_twin (halfedges m1 ! nat t) = -1)"
    unfolding boundary_fallback_def m1_def[symmetric] t_def
    by (auto simp: Let_def deref_Inr_iff in_range_def m1_def split: sum.splits if_splits)
  then show ?thesis
  proof
    assume "t = -1"
    then show ?thesis by (simp add: t_eq orig_def)
  next
    assume a: "in_range (halfedges m1) t \<and> he_twin (halfedges m1 ! nat t) = -1"
    then have "nat t < length (halfedges m)"
      using in_range_frame(1)[OF f1] by (simp add: in_range_nat)
    from sweep_frame_halfedges(2)[OF f1 this] a show ?thesis
      by (simp add: t_eq orig_def)
  qed
qed

lemma normalized_zero: "normalized (0, 0, 0) = (0, 0, 0)"
  by (simp add: normalized_def norm3_def)

lemma normalized_divided:
  "normalized n = (if 0 < norm3 n then divided n (norm3 n) else (0, 0, 0))"
  by (simp add: normalized_def divided_def Let_def)

lemma finish_vertex:
  assumes "nat v < length (vertices (sw_mesh st))"
  shows "v_valence (vertices (finish v st) ! nat v) = sw_i st"
    and "v_normal (vertices (finish v st) ! nat v) = normalized (sw_normal st)"
    and "v_neighbors (vertices (finish v st) ! nat v) = v_neighbors (vertices (sw_mesh st) ! nat v)"
    and "halfedges (finish v st) = halfedges (sw_mesh st)"
    and "faces (finish v st) = faces (sw_mesh st)"
  using assms by (simp_all add: finish_def Let_def)

lemma ring_walk_swept_vertex:
  assumes "ring_walk N v m = Inr (Swept st)"
  shows "nat v < length (vertices (sw_mesh st))"
proof -
  from ring_walk_slots[OF assms] have "sweep_frame v m (sw_mesh st)"
    by (simp add: slots_inv_def)
  from in_range_frame(2)[OF this] ring_walk_in_range[OF assms] show ?thesis
    by (simp add: in_range_nat)
qed

section \<open>The valence\<close>

text \<open>
  Claim C3, at an input where the code departs from it. On the fan of five triangles with
  the anchor of the centre on the rim (half-edge 0) the forward sweep records the five
  half-edges 0, 3, 6, 9, 12 and stops at the missing twin of 12 with \<^verbatim>\<open>i = 4\<close>. The boundary
  fallback moves the slots 1 to 4 round, finds that the half-edge before the anchor has no
  twin and leaves by the \<^verbatim>\<open>continue\<close> of line 199, past line 243: the valence keeps the
  value 7 it had before the call. With the anchor 3 the walk around the same vertex ends in the \<^verbatim>\<open>break\<close> that the same
  test takes inside the second loop (line 233), reaches line 243, and stores the valence 4.
\<close>

theorem valence_stale_on_rim_anchor:
  "\<not> isl (update_vertex_neighbors 20 [0] (fan5_anchored 0 7 (replicate 20 (-1)))) \<and>
   map (\<lambda>k. v_neighbors (vertices (projr (update_vertex_neighbors 20 [0]
          (fan5_anchored 0 7 (replicate 20 (-1))))) ! 0) ! k) [0, 1, 2, 3, 4, 5] =
     [0, 12, 3, 6, 9, -1] \<and>
   v_valence (vertices (projr (update_vertex_neighbors 20 [0]
      (fan5_anchored 0 7 (replicate 20 (-1))))) ! 0) = 7 \<and>
   \<not> isl (update_vertex_neighbors 20 [0] (fan5_anchored 3 7 (replicate 20 (-1)))) \<and>
   v_valence (vertices (projr (update_vertex_neighbors 20 [0]
      (fan5_anchored 3 7 (replicate 20 (-1))))) ! 0) = 4"
  by (simp add: eval_defs fan5_anchored_def fan5_def)

text \<open>
  What a ring walk that returns does to the valence. When the walk reaches line 243 the
  valence stored is the final \<^verbatim>\<open>i\<close>, which is not negative, and \<^verbatim>\<open>neighbors\<close> keeps its
  \<^verbatim>\<open>NEIGHBORSIZE\<close> slots; on a closed ring of \<open>k\<close> half-edges that \<^verbatim>\<open>i\<close> is \<open>k\<close>, also when \<open>k\<close>
  exceeds \<^verbatim>\<open>NEIGHBORSIZE\<close>, and \<^verbatim>\<open>neighbors\<close> then holds the first \<^verbatim>\<open>NEIGHBORSIZE\<close> half-edges
  of the ring. When the walk is left by a \<^verbatim>\<open>continue\<close> the valence is not written; past a
  vertex without anchor this happens only when the anchor has no previous half-edge, or
  that half-edge has no twin.
\<close>

lemma valence_of_ring_walk:
  assumes "v \<noteq> -1" and "ring_walk N v m = Inr w"
  shows "vertex_step N v m = Inr (case w of Skipped m' \<Rightarrow> m' | Swept st \<Rightarrow> finish v st) \<and>
         (\<forall>st. w = Swept st \<longrightarrow>
            v_valence (vertices (finish v st) ! nat v) = sw_i st \<and> 0 \<le> sw_i st \<and>
            length (v_neighbors (vertices (finish v st) ! nat v)) = N) \<and>
         (\<forall>m'. w = Skipped m' \<longrightarrow>
            v_valence (vertices m' ! nat v) = v_valence (vertices m ! nat v) \<and>
            (v_halfedge (vertices m ! nat v) = -1 \<or>
             he_prev (halfedges m ! nat (v_halfedge (vertices m ! nat v))) = -1 \<or>
             he_twin (halfedges m !
               nat (he_prev (halfedges m ! nat (v_halfedge (vertices m ! nat v))))) = -1)) \<and>
         (\<forall>es. closed_ring m v es \<longrightarrow>
            (\<exists>st. w = Swept st \<and> sw_i st = int (length es) \<and>
               v_neighbors (vertices (finish v st) ! nat v) =
                 take N es @ replicate (N - length es) (-1)))"
proof (intro conjI allI impI)
  show "vertex_step N v m = Inr (case w of Skipped m' \<Rightarrow> m' | Swept st \<Rightarrow> finish v st)"
    using assms by (simp add: vertex_step_def split: walk.splits)
next
  fix st assume w: "w = Swept st"
  note rw = assms(2)[unfolded w]
  note lt = ring_walk_swept_vertex[OF rw]
  from ring_walk_slots[OF rw] finish_vertex(1,3)[OF lt]
  show "v_valence (vertices (finish v st) ! nat v) = sw_i st"
    and "0 \<le> sw_i st"
    and "length (v_neighbors (vertices (finish v st) ! nat v)) = N"
    by (simp_all add: slots_inv_def)
next
  fix m' assume w: "w = Skipped m'"
  note rw = assms(2)[unfolded w]
  from ring_walk_frame[OF rw] have "sweep_frame v m m'" by simp
  then show "v_valence (vertices m' ! nat v) = v_valence (vertices m ! nat v)"
    by (rule sweep_frame_same(3))
  from ring_walk_skipped[OF rw]
  show "v_halfedge (vertices m ! nat v) = -1 \<or>
        he_prev (halfedges m ! nat (v_halfedge (vertices m ! nat v))) = -1 \<or>
        he_twin (halfedges m !
          nat (he_prev (halfedges m ! nat (v_halfedge (vertices m ! nat v))))) = -1" .
next
  fix es assume cr: "closed_ring m v es"
  from closed_ring_walk[OF cr, of N] obtain st where
    inv: "ring_inv N m v es (length es) st" and rw: "ring_walk N v m = Inr (Swept st)"
    by blast
  from rw assms(2) have w: "w = Swept st" by simp
  from inv have "sw_i st = int (length es)"
    and "v_neighbors (vertices (sw_mesh st) ! nat v) = take N es @ replicate (N - length es) (-1)"
    by (simp_all add: ring_inv_def min_def)
  with w finish_vertex(3)[OF ring_walk_swept_vertex[OF rw]]
  show "\<exists>st. w = Swept st \<and> sw_i st = int (length es) \<and>
          v_neighbors (vertices (finish v st) ! nat v) = take N es @ replicate (N - length es) (-1)"
    by simp
qed

lemma edge_measured_cong:
  "halfedges m1 = halfedges m2 \<Longrightarrow> edge_measured m v m1 e = edge_measured m v m2 e"
  by (simp add: edge_measured_def)

lemma closed_ring_result:
  assumes cr: "closed_ring m v es"
  obtains st where "ring_walk N v m = Inr (Swept st)"
    and "vertex_step N v m = Inr (finish v st)"
    and "v_valence (vertices (finish v st) ! nat v) = int (length es)"
    and "v_neighbors (vertices (finish v st) ! nat v) = take N es @ replicate (N - length es) (-1)"
    and "v_normal (vertices (finish v st) ! nat v) = normalized (foldl (weigh m) (0, 0, 0) (take N es))"
    and "ring_twins_ok m v es \<Longrightarrow> list_all (edge_measured m v (finish v st)) es"
proof -
  from closed_ring_walk[OF cr, of N] obtain st where
    inv: "ring_inv N m v es (length es) st" and rw: "ring_walk N v m = Inr (Swept st)"
    and vs: "vertex_step N v m = Inr (finish v st)"
    by blast
  note lt = ring_walk_swept_vertex[OF rw]
  note f = finish_vertex[OF lt]
  from inv have "sw_i st = int (length es)"
    and "v_neighbors (vertices (sw_mesh st) ! nat v) = take N es @ replicate (N - length es) (-1)"
    and "sw_normal st = foldl (weigh m) (0, 0, 0) (take N es)"
    and "ring_twins_ok m v es \<Longrightarrow> list_all (edge_measured m v (sw_mesh st)) es"
    by (simp_all add: ring_inv_def min_def)
  with f have "v_valence (vertices (finish v st) ! nat v) = int (length es)"
    and "v_neighbors (vertices (finish v st) ! nat v) = take N es @ replicate (N - length es) (-1)"
    and "v_normal (vertices (finish v st) ! nat v) = normalized (foldl (weigh m) (0, 0, 0) (take N es))"
    and "ring_twins_ok m v es \<Longrightarrow> list_all (edge_measured m v (finish v st)) es"
    by (simp_all add: edge_measured_cong[OF f(4)] list_all_iff)
  with rw vs show ?thesis
    by (rule that)
qed

lemma sum_contrib_sentinels: "sum_list (map (contrib m) (replicate n (-1))) = (0, 0, 0)"
  by (induction n) (simp_all add: contrib_def zero_prod_def)

lemma foldl_weigh: "foldl (weigh m) a es = a + sum_list (map (weighted m) es)"
  by (induction es arbitrary: a) (simp_all add: weigh_plus add.assoc)

lemma closed_ring_no_sentinel: "closed_ring m v es \<Longrightarrow> e \<in> set es \<Longrightarrow> e \<noteq> -1"
  by (auto simp: closed_ring_def list_all_iff ring_edge_ok_def in_range_def)

lemma sum_contrib_ring:
  assumes "closed_ring m v es"
  shows "sum_list (map (contrib m) (take N es @ replicate n (-1))) = sum_list (map (weighted m) (take N es))"
proof -
  have "map (contrib m) (take N es) = map (weighted m) (take N es)"
    using closed_ring_no_sentinel[OF assms] by (auto simp: contrib_def dest: in_set_takeD)
  moreover have "sum_list (map (contrib m) (take N es @ replicate n (-1))) =
      sum_list (map (contrib m) (take N es)) + sum_list (map (contrib m) (replicate n (-1)))"
    by (simp only: map_append sum_list_append)
  ultimately show ?thesis
    by (simp only: sum_contrib_sentinels) (simp add: zero_prod_def[symmetric])
qed

section \<open>The vertex normal\<close>



lemma face_step_result:
  assumes "face_step f m = Inr m'"
  shows "m' = m \<or>
         (0 \<le> f \<and> nat f < length (faces m) \<and>
          m' = m\<lparr>faces := (faces m)[nat f := (faces m ! nat f)
               \<lparr>f_area := 0.5 * norm3 (face_cross m f), f_normal := normalized (face_cross m f)\<rparr>]\<rparr>)"
proof (cases "m' = m")
  case True
  then show ?thesis by simp
next
  case False
  with assms obtain cf where cf: "deref (faces m) f = Inr cf" and f: "f \<noteq> -1"
    unfolding face_step_def by (auto split: if_splits sum.splits)
  then have cf': "cf = faces m ! nat f" and fr: "0 \<le> f" "nat f < length (faces m)"
    by (auto simp: deref_Inr_iff)
  from assms False f cf obtain ce where
    ce: "deref (halfedges m) (f_halfedge cf) = Inr ce" and h: "f_halfedge cf \<noteq> -1"
    unfolding face_step_def by (auto simp: Let_def split: if_splits sum.splits)
  then have ce': "ce = halfedges m ! nat (f_halfedge cf)"
    by (simp add: deref_Inr_iff)
  from assms False f cf ce h obtain pe ne where
    pn: "he_prev ce \<noteq> -1" "he_next ce \<noteq> -1"
    and pe: "deref (halfedges m) (he_prev ce) = Inr pe"
    and ne: "deref (halfedges m) (he_next ce) = Inr ne"
    unfolding face_step_def by (auto simp: Let_def split: if_splits sum.splits)
  then have pe': "pe = halfedges m ! nat (he_prev ce)" and ne': "ne = halfedges m ! nat (he_next ce)"
    by (simp_all add: deref_Inr_iff)
  from assms f cf ce h pn pe ne obtain cv pv nv where
    v: "deref (vertices m) (he_vertex ce) = Inr cv" "deref (vertices m) (he_vertex pe) = Inr pv"
       "deref (vertices m) (he_vertex ne) = Inr nv"
    unfolding face_step_def by (auto simp: Let_def split: sum.splits)
  then have v': "cv = vertices m ! nat (he_vertex ce)" "pv = vertices m ! nat (he_vertex pe)"
       "nv = vertices m ! nat (he_vertex ne)"
    by (simp_all add: deref_Inr_iff)
  from assms f cf ce h pn pe ne v have
    "m' = m\<lparr>faces := (faces m)[nat f := cf
        \<lparr>f_area := 0.5 * norm3 (cross (vsub (v_position pv) (v_position cv))
                                     (vsub (v_position nv) (v_position cv))),
         f_normal := normalized (cross (vsub (v_position pv) (v_position cv))
                                     (vsub (v_position nv) (v_position cv)))\<rparr>]\<rparr>"
    unfolding face_step_def by (simp add: Let_def)
  moreover have "face_cross m f = cross (vsub (v_position pv) (v_position cv))
                                     (vsub (v_position nv) (v_position cv))"
    by (simp add: face_cross_def Let_def corner_def cf'[symmetric] ce'[symmetric] pe'[symmetric]
        ne'[symmetric] v')
  ultimately show ?thesis
    using fr cf' by simp
qed

section \<open>Missing links\<close>

text \<open>The forward sweep around the vertex 0 of the two triangles glued back to back, the
  \<^verbatim>\<open>next\<close> of the twin of the anchor missing: a read outside the array.\<close>

lemma missing_next_out_of_bounds:
  "update_vertex_neighbors 20 [0] (pillow_cut (replicate 20 (-1))) = Inl OutOfBounds"
  by (simp add: eval_defs pillow_cut_def pillow_def)

text \<open>
  Claim C4, at two inputs where the code departs from it.
  \<^item> On the single triangle the half-edge before the anchor of the vertex 0 has no twin. The
    vertex is left by the \<^verbatim>\<open>continue\<close> of line 199, but its update was not skipped:
    \<^verbatim>\<open>neighbors\<close>, 5 in every slot before the call, has been reset and its slot 0 filled, and
    the length of the anchor has been written, while the valence and the normal keep their
    old values. The \<^verbatim>\<open>continue\<close> of line 195 does the same; all the others of the file are
    taken before anything is written, and the same tests inside the second loop (lines 227
    to 233) leave by \<^verbatim>\<open>break\<close> and reach the writes of lines 243 to 252.
  \<^item> On the two triangles glued back to back with the \<^verbatim>\<open>next\<close> of the half-edge 5 missing,
    line 168 reads \<^verbatim>\<open>curr_edge->twin\<close> through the index \<open>-1\<close>, outside the array, before the
    test of line 143 is reached again.
\<close>

theorem missing_links_not_skipped:
  "he_twin (halfedges (single_triangle 7 (1, 0, 0) (replicate 20 5)) !
      nat (he_prev (halfedges (single_triangle 7 (1, 0, 0) (replicate 20 5)) ! 0))) = -1 \<and>
   \<not> isl (update_vertex_neighbors 20 [0] (single_triangle 7 (1, 0, 0) (replicate 20 5))) \<and>
   v_neighbors (vertices (single_triangle 7 (1, 0, 0) (replicate 20 5)) ! 0) = replicate 20 5 \<and>
   v_neighbors (vertices (projr (update_vertex_neighbors 20 [0]
       (single_triangle 7 (1, 0, 0) (replicate 20 5)))) ! 0) = (replicate 20 (-1))[0 := 0] \<and>
   v_valence (vertices (projr (update_vertex_neighbors 20 [0]
       (single_triangle 7 (1, 0, 0) (replicate 20 5)))) ! 0) = 7 \<and>
   v_normal (vertices (projr (update_vertex_neighbors 20 [0]
       (single_triangle 7 (1, 0, 0) (replicate 20 5)))) ! 0) = (1, 0, 0) \<and>
   he_length (halfedges (single_triangle 7 (1, 0, 0) (replicate 20 5)) ! 0) = 0 \<and>
   he_length (halfedges (projr (update_vertex_neighbors 20 [0]
       (single_triangle 7 (1, 0, 0) (replicate 20 5)))) ! 0) = 1 \<and>
   he_next (halfedges (pillow_cut (replicate 20 (-1))) ! 5) = -1 \<and>
   update_vertex_neighbors 20 [0] (pillow_cut (replicate 20 (-1))) = Inl OutOfBounds"
proof -
  have "he_next (halfedges (pillow_cut (replicate 20 (-1))) ! 5) = -1"
    by (simp add: pillow_cut_def pillow_def)
  with missing_next_out_of_bounds show ?thesis
    by (simp add: eval_defs single_triangle_def)
qed

text \<open>
  Where nothing is written: a face or vertex index that is the sentinel, a face without
  half-edge or whose half-edge has no \<^verbatim>\<open>prev\<close> or no \<^verbatim>\<open>next\<close>, a vertex without anchor. And
  what a ring walk left by a \<^verbatim>\<open>continue\<close> of the boundary fallback has not touched.
\<close>

lemma missing_links_frame:
  "((f = -1 \<or> (in_range (faces m) f \<and>
        (f_halfedge (faces m ! nat f) = -1 \<or>
         (in_range (halfedges m) (f_halfedge (faces m ! nat f)) \<and>
          (he_prev (halfedges m ! nat (f_halfedge (faces m ! nat f))) = -1 \<or>
           he_next (halfedges m ! nat (f_halfedge (faces m ! nat f))) = -1))))) \<longrightarrow>
      face_step f m = Inr m \<and> update_face_normals (f # f_idxs) m = update_face_normals f_idxs m) \<and>
   ((v = -1 \<or> (in_range (vertices m) v \<and> v_halfedge (vertices m ! nat v) = -1)) \<longrightarrow>
      vertex_step N v m = Inr m \<and>
      update_vertex_neighbors N (v # v_idxs) m = update_vertex_neighbors N v_idxs m) \<and>
   (v \<noteq> -1 \<and> ring_walk N v m = Inr (Skipped m') \<longrightarrow>
      vertex_step N v m = Inr m' \<and>
      update_vertex_neighbors N (v # v_idxs) m = update_vertex_neighbors N v_idxs m' \<and>
      v_valence (vertices m' ! nat v) = v_valence (vertices m ! nat v) \<and>
      v_normal (vertices m' ! nat v) = v_normal (vertices m ! nat v) \<and>
      v_position (vertices m' ! nat v) = v_position (vertices m ! nat v) \<and>
      v_halfedge (vertices m' ! nat v) = v_halfedge (vertices m ! nat v) \<and>
      (\<forall>w. w \<noteq> nat v \<longrightarrow> vertices m' ! w = vertices m ! w) \<and>
      length (vertices m') = length (vertices m) \<and>
      faces m' = faces m \<and>
      map unlength (halfedges m') = map unlength (halfedges m) \<and>
      (v_halfedge (vertices m ! nat v) = -1 \<or>
       he_prev (halfedges m ! nat (v_halfedge (vertices m ! nat v))) = -1 \<or>
       he_twin (halfedges m ! nat (he_prev (halfedges m ! nat (v_halfedge (vertices m ! nat v))))) = -1))"
proof (intro conjI impI)
  assume a: "f = -1 \<or> (in_range (faces m) f \<and>
        (f_halfedge (faces m ! nat f) = -1 \<or>
         (in_range (halfedges m) (f_halfedge (faces m ! nat f)) \<and>
          (he_prev (halfedges m ! nat (f_halfedge (faces m ! nat f))) = -1 \<or>
           he_next (halfedges m ! nat (f_halfedge (faces m ! nat f))) = -1))))"
  then show s: "face_step f m = Inr m"
    by (auto simp: face_step_def deref_in_range Let_def)
  then show "update_face_normals (f # f_idxs) m = update_face_normals f_idxs m"
    by simp
next
  assume a: "v = -1 \<or> (in_range (vertices m) v \<and> v_halfedge (vertices m ! nat v) = -1)"
  then show s: "vertex_step N v m = Inr m"
    by (auto simp: vertex_step_def ring_walk_def deref_in_range)
  then show "update_vertex_neighbors N (v # v_idxs) m = update_vertex_neighbors N v_idxs m"
    by simp
next
  assume a: "v \<noteq> -1 \<and> ring_walk N v m = Inr (Skipped m')"
  then show s: "vertex_step N v m = Inr m'"
    by (simp add: vertex_step_def)
  then show "update_vertex_neighbors N (v # v_idxs) m = update_vertex_neighbors N v_idxs m'"
    by simp
  from a have w: "ring_walk N v m = Inr (Skipped m')" by simp
  from ring_walk_frame[OF w] have fr: "sweep_frame v m m'" by simp
  show "v_halfedge (vertices m ! nat v) = -1 \<or>
       he_prev (halfedges m ! nat (v_halfedge (vertices m ! nat v))) = -1 \<or>
       he_twin (halfedges m ! nat (he_prev (halfedges m ! nat (v_halfedge (vertices m ! nat v))))) = -1"
    by (rule ring_walk_skipped[OF w])
  from sweep_frame_same[OF fr]
  show "v_valence (vertices m' ! nat v) = v_valence (vertices m ! nat v)"
    and "v_normal (vertices m' ! nat v) = v_normal (vertices m ! nat v)"
    and "v_position (vertices m' ! nat v) = v_position (vertices m ! nat v)"
    and "v_halfedge (vertices m' ! nat v) = v_halfedge (vertices m ! nat v)"
    by simp_all
  show "\<forall>w. w \<noteq> nat v \<longrightarrow> vertices m' ! w = vertices m ! w"
    using sweep_frame_other[OF fr] by blast
  show "length (vertices m') = length (vertices m)"
    by (rule sweep_frame_length[OF fr])
  from fr show "faces m' = faces m" and "map unlength (halfedges m') = map unlength (halfedges m)"
    by (simp_all add: sweep_frame_def)
qed

section \<open>Written normals\<close>

text \<open>
  Claim C8 fails on the code. On the two triangles glued back to back, both faces are
  valid and get the area one half from \<^verbatim>\<open>update_face_normals\<close>, with the normals \<open>(0,0,1)\<close>
  and \<open>(0,0,-1)\<close>. The ring of the vertex \<open>A\<close> is closed and has these two faces; their
  weighted normals cancel, and \<^verbatim>\<open>update_vertex_neighbors\<close> stores the normal \<open>(0,0,0)\<close> for a
  vertex with two incident triangles of nonzero area.
\<close>

theorem cancelling_faces_counterexample:
  "\<not> isl (faces_then_vertices 20 [0, 1] [0] (pillow (replicate 20 (-1)))) \<and>
   map f_area (faces (projr (faces_then_vertices 20 [0, 1] [0] (pillow (replicate 20 (-1)))))) =
     [1 / 2, 1 / 2] \<and>
   map f_normal (faces (projr (faces_then_vertices 20 [0, 1] [0] (pillow (replicate 20 (-1)))))) =
     [(0, 0, 1), (0, 0, -1)] \<and>
   v_valence (vertices (projr (faces_then_vertices 20 [0, 1] [0]
       (pillow (replicate 20 (-1))))) ! 0) = 2 \<and>
   v_normal (vertices (projr (faces_then_vertices 20 [0, 1] [0]
       (pillow (replicate 20 (-1))))) ! 0) = (0, 0, 0) \<and>
   norm3 (v_normal (vertices (projr (faces_then_vertices 20 [0, 1] [0]
       (pillow (replicate 20 (-1))))) ! 0)) \<noteq> 1"
  by (simp add: eval_defs pillow_def faces_then_vertices_def)

lemma sum_list_zeros:
  fixes xs :: "vec3 list"
  shows "list_all (\<lambda>x. x = (0, 0, 0)) xs \<Longrightarrow> sum_list xs = (0, 0, 0)"
  by (induction xs) (simp_all add: zero_prod_def)

lemma contrib_no_area:
  "e = -1 \<or> f_area (faces m ! nat (he_face (halfedges m ! nat e))) = 0 \<Longrightarrow> contrib m e = (0, 0, 0)"
  by (cases "f_normal (faces m ! nat (he_face (halfedges m ! nat e)))")
     (auto simp: contrib_def weighted_def add_scaled_def)

lemma pillow_ring: "closed_ring (pillow nb0) 0 [0, 3]"
  by (simp add: closed_ring_def pillow_def in_range_def ring_edge_ok_def ring_step_def INT_MAX_def)

text \<open>
  Claim C8 as amended. What both kernels store as a normal is decided by the test
  \<^verbatim>\<open>nn > 0\<close> on the norm of the vector at hand, not by the triangles around: the zero vector
  when the test fails, the vector divided by \<^verbatim>\<open>nn\<close> when it holds.
  \<^item> A step of \<^verbatim>\<open>update_face_normals\<close> leaves each face as it was or writes it; for a written
    face the vector is the cross product \<open>n\<close> of the two edge vectors, \<^verbatim>\<open>nn\<close> is \<open>norm(n)\<close> and
    the area stored is \<open>0.5 * nn\<close>.
  \<^item> A step of \<^verbatim>\<open>update_vertex_neighbors\<close> that reaches line 243 returns; the vector is the
    sum of \<open>face.normal * face.area\<close> over the half-edges recorded in \<^verbatim>\<open>neighbors\<close>. The
    normal stored is exactly \<open>(0,0,0)\<close> when every recorded half-edge has a face of area
    zero (and when none is recorded).
  That a quotient stored has length 1 is not part of the statement.
\<close>

theorem written_normal_zero_or_quotient:
  "(face_step f m = Inr m' \<longrightarrow>
      (\<forall>g. faces m' ! g = faces m ! g \<or>
           f_area (faces m' ! g) = 0.5 * norm3 (face_cross m f) \<and>
           f_normal (faces m' ! g) =
             (if 0 < norm3 (face_cross m f)
              then divided (face_cross m f) (norm3 (face_cross m f)) else (0, 0, 0)))) \<and>
   (v \<noteq> -1 \<and> ring_walk N v m = Inr (Swept st) \<longrightarrow>
      vertex_step N v m = Inr (finish v st) \<and>
      v_normal (vertices (finish v st) ! nat v) =
        (if 0 < norm3 (sum_list (map (contrib m) (v_neighbors (vertices (finish v st) ! nat v))))
         then divided (sum_list (map (contrib m) (v_neighbors (vertices (finish v st) ! nat v))))
                (norm3 (sum_list (map (contrib m) (v_neighbors (vertices (finish v st) ! nat v)))))
         else (0, 0, 0)) \<and>
      (list_all (\<lambda>e. e = -1 \<or> f_area (faces m ! nat (he_face (halfedges m ! nat e))) = 0)
          (v_neighbors (vertices (finish v st) ! nat v)) \<longrightarrow>
       v_normal (vertices (finish v st) ! nat v) = (0, 0, 0)))"
proof (intro conjI impI allI)
  fix g assume "face_step f m = Inr m'"
  from face_step_result[OF this]
  show "faces m' ! g = faces m ! g \<or>
           f_area (faces m' ! g) = 0.5 * norm3 (face_cross m f) \<and>
           f_normal (faces m' ! g) =
             (if 0 < norm3 (face_cross m f)
              then divided (face_cross m f) (norm3 (face_cross m f)) else (0, 0, 0))"
  proof
    assume "m' = m"
    then show ?thesis by simp
  next
    assume "0 \<le> f \<and> nat f < length (faces m) \<and>
          m' = m\<lparr>faces := (faces m)[nat f := (faces m ! nat f)
               \<lparr>f_area := 0.5 * norm3 (face_cross m f), f_normal := normalized (face_cross m f)\<rparr>]\<rparr>"
    then have lt: "nat f < length (faces m)"
      and m': "faces m' = (faces m)[nat f := (faces m ! nat f)
               \<lparr>f_area := 0.5 * norm3 (face_cross m f), f_normal := normalized (face_cross m f)\<rparr>]"
      by simp_all
    show ?thesis
    proof (cases "g = nat f")
      case False
      with m' show ?thesis by simp
    next
      case True
      with m' lt have "f_area (faces m' ! g) = 0.5 * norm3 (face_cross m f)"
        and "f_normal (faces m' ! g) = normalized (face_cross m f)"
        by simp_all
      then show ?thesis
        by (simp only: normalized_divided) simp
    qed
  qed
next
  assume a: "v \<noteq> -1 \<and> ring_walk N v m = Inr (Swept st)"
  then show "vertex_step N v m = Inr (finish v st)"
    by (simp add: vertex_step_def)
  from a have rw: "ring_walk N v m = Inr (Swept st)" by simp
  note f = finish_vertex[OF ring_walk_swept_vertex[OF rw]]
  from ring_walk_slots[OF rw] have
    "sw_normal st = sum_list (map (contrib m) (v_neighbors (vertices (sw_mesh st) ! nat v)))"
    by (simp add: slots_inv_def)
  with f(2,3) have n: "v_normal (vertices (finish v st) ! nat v) =
      normalized (sum_list (map (contrib m) (v_neighbors (vertices (finish v st) ! nat v))))"
    by simp
  then show "v_normal (vertices (finish v st) ! nat v) =
        (if 0 < norm3 (sum_list (map (contrib m) (v_neighbors (vertices (finish v st) ! nat v))))
         then divided (sum_list (map (contrib m) (v_neighbors (vertices (finish v st) ! nat v))))
                (norm3 (sum_list (map (contrib m) (v_neighbors (vertices (finish v st) ! nat v)))))
         else (0, 0, 0))"
    by (simp only: normalized_divided)
  assume "list_all (\<lambda>e. e = -1 \<or> f_area (faces m ! nat (he_face (halfedges m ! nat e))) = 0)
          (v_neighbors (vertices (finish v st) ! nat v))"
  then have "list_all (\<lambda>x. x = (0, 0, 0))
      (map (contrib m) (v_neighbors (vertices (finish v st) ! nat v)))"
    by (simp add: list_all_iff contrib_no_area)
  then have "sum_list (map (contrib m) (v_neighbors (vertices (finish v st) ! nat v))) = (0, 0, 0)"
    by (rule sum_list_zeros)
  with n show "v_normal (vertices (finish v st) ! nat v) = (0, 0, 0)"
    by (simp only: normalized_zero)
qed

text \<open>
  The face of the single triangle gets the quotient \<open>(0,0,1)\<close>; the corner \<open>O\<close> of the
  tetrahedron gets the quotient of the sum \<open>(-1/2,-1/2,-1/2)\<close> of its three weighted face
  normals; the vertex 0 of the two triangles glued back to back, their areas still zero
  in the face array, gets \<open>(0,0,0)\<close>.
\<close>

theorem written_normal_zero_or_quotient_witness:
  "\<not> isl (face_step 0 (single_triangle 0 (0, 0, 0) [])) \<and>
   f_normal (faces (projr (face_step 0 (single_triangle 0 (0, 0, 0) []))) ! 0) = (0, 0, 1) \<and>
   (0::int) \<noteq> -1 \<and> \<not> isl (ring_walk 20 0 (tetrahedron (replicate 20 (-1)))) \<and>
   0 < norm3 (- 1 / 2, - 1 / 2, - 1 / 2) \<and>
   v_normal (vertices (projr (vertex_step 20 0 (tetrahedron (replicate 20 (-1))))) ! 0) =
     divided (- 1 / 2, - 1 / 2, - 1 / 2) (norm3 (- 1 / 2, - 1 / 2, - 1 / 2)) \<and>
   \<not> isl (ring_walk 20 0 (pillow (replicate 20 (-1)))) \<and>
   v_normal (vertices (projr (vertex_step 20 0 (pillow (replicate 20 (-1))))) ! 0) = (0, 0, 0)"
proof -
  let ?S = "single_triangle 0 (0, 0, 0) []"
  let ?T = "tetrahedron (replicate 20 (-1))"
  let ?P = "pillow (replicate 20 (-1))"
  let ?S' = "?S\<lparr>faces := [\<lparr>f_halfedge = 0, f_normal = (0, 0, 1), f_area = 1 / 2\<rparr>]\<rparr>"
  have fs: "face_step 0 ?S = Inr ?S'"
    by (simp add: eval_defs single_triangle_def)
  have ne: "(0::int) \<noteq> -1" by simp
  have pos: "0 < norm3 (- 1 / 2, - 1 / 2, - 1 / 2)"
    by (simp add: norm3_def)
  from closed_ring_result[OF tetrahedron_ring, of 20 "replicate 20 (-1)"] obtain st where
    rw: "ring_walk 20 0 ?T = Inr (Swept st)"
    and nb': "v_neighbors (vertices (finish 0 st) ! nat 0) =
        take 20 [0, 3, 6] @ replicate (20 - length [0::int, 3, 6]) (-1)"
    by blast
  have total: "sum_list (map (contrib ?T) (v_neighbors (vertices (finish 0 st) ! nat 0))) =
      (- 1 / 2, - 1 / 2, - 1 / 2)"
    unfolding nb' sum_contrib_ring[OF tetrahedron_ring]
    by (simp add: weighted_def tetrahedron_def add_scaled_def)
  from closed_ring_result[OF pillow_ring, of 20 "replicate 20 (-1)"] obtain sp where
    rp: "ring_walk 20 0 ?P = Inr (Swept sp)"
    and np: "v_neighbors (vertices (finish 0 sp) ! nat 0) =
        take 20 [0, 3] @ replicate (20 - length [0::int, 3]) (-1)"
    by blast
  have flat: "list_all (\<lambda>e. e = -1 \<or> f_area (faces ?P ! nat (he_face (halfedges ?P ! nat e))) = 0)
      (v_neighbors (vertices (finish 0 sp) ! nat 0))"
    unfolding np by (simp add: pillow_def list_all_iff)
  from written_normal_zero_or_quotient[of 0 ?S ?S' 0 20 st] fs
  have "faces ?S' ! 0 = faces ?S ! 0 \<or>
        f_area (faces ?S' ! 0) = 0.5 * norm3 (face_cross ?S 0) \<and>
        f_normal (faces ?S' ! 0) =
          (if 0 < norm3 (face_cross ?S 0) then divided (face_cross ?S 0) (norm3 (face_cross ?S 0))
           else (0, 0, 0))"
    by blast
  then have 1: "f_normal (faces (projr (face_step 0 ?S)) ! 0) = (0, 0, 1)"
    by (simp add: fs single_triangle_sel)
  from written_normal_zero_or_quotient[of 0 ?T ?T 0 20 st] ne rw
  have 2: "vertex_step 20 0 ?T = Inr (finish 0 st)"
    and 3: "v_normal (vertices (finish 0 st) ! nat 0) =
        (if 0 < norm3 (sum_list (map (contrib ?T) (v_neighbors (vertices (finish 0 st) ! nat 0))))
         then divided (sum_list (map (contrib ?T) (v_neighbors (vertices (finish 0 st) ! nat 0))))
                (norm3 (sum_list (map (contrib ?T) (v_neighbors (vertices (finish 0 st) ! nat 0)))))
         else (0, 0, 0))"
    by blast+
  from 3 pos have 4: "v_normal (vertices (finish 0 st) ! nat 0) =
      divided (- 1 / 2, - 1 / 2, - 1 / 2) (norm3 (- 1 / 2, - 1 / 2, - 1 / 2))"
    by (simp only: total if_True)
  from written_normal_zero_or_quotient[of 0 ?P ?P 0 20 sp] ne rp flat
  have 5: "vertex_step 20 0 ?P = Inr (finish 0 sp)"
    and 6: "v_normal (vertices (finish 0 sp) ! nat 0) = (0, 0, 0)"
    by blast+
  from fs 1 ne rw pos 2 4 rp 5 6 show ?thesis
    by simp
qed

section \<open>Edge lengths\<close>



subsection \<open>Lengths written by a ring walk\<close>



















subsection \<open>What a batch leaves alone\<close>



























subsection \<open>Lengths of the recorded half-edges\<close>




















end
